theory Spec2Isabelle
  imports Main
begin

section \<open>bolt-rawgen: the syntax trees it reads\<close>

text \<open>
  The generator of \<^verbatim>\<open>cmd/bolt-rawgen/main.go\<close> reads Go source, finds the struct
  types whose fields all have raw types and appends generated code to the file.
  Strings are byte strings, as Go's are.

  Of a parsed file only the type declarations matter: \<^verbatim>\<open>Visit\<close> acts on
  \<^verbatim>\<open>*ast.TypeSpec\<close> nodes alone and returns the visitor for every other node, so a
  file is modelled as the list of its type declarations in the order \<^verbatim>\<open>ast.Walk\<close>
  reaches them. A field's type expression is an identifier, a selector expression or
  anything else (\<^verbatim>\<open>tostr\<close> only looks at the first two).
\<close>

datatype expr = Ident string | SelectorExpr expr string | OtherExpr

datatype field = Field (Names: "string list") (FType: expr)

datatype type_expr = StructType "field list" | OtherType

datatype typeSpec = TypeSpec (Name: string) (SType: type_expr)

datatype error =
    ReadFileError
  | ParseError string
  | IndexOutOfRange
  | RawStructExported string
  | GenerateExportedType
  | GenerateEncodeFunc
  | GenerateDecodeFunc
  | GenerateAccessorFuncs
  | InvalidRawType string
  | WriteFileError

text \<open>\<^verbatim>\<open>tostr\<close>: the name of an identifier, the dotted name of a selector, else empty.\<close>

fun tostr :: "expr \<Rightarrow> string" where
  "tostr (Ident name) = name"
| "tostr (SelectorExpr x sel) = tostr x @ ''.'' @ sel"
| "tostr OtherExpr = ''''"

subsection \<open>The functions of Go's unicode package on \<^verbatim>\<open>rune(s[0])\<close>\<close>

text \<open>
  The source converts the first byte of a name to a rune, so only the code points
  0 to 255 occur. On them \<^verbatim>\<open>unicode.IsUpper\<close> holds of A to Z and of the Latin-1
  capitals, and \<^verbatim>\<open>unicode.ToUpper\<close> maps a to z and the Latin-1 small letters to
  their capitals (the micro sign and y with diaeresis leave Latin-1).
  \<^verbatim>\<open>string(r)\<close> is the UTF-8 encoding of the rune, one or two bytes below 0x800.
\<close>

definition unicode_IsUpper :: "nat \<Rightarrow> bool" where
  "unicode_IsUpper r =
     ((65 \<le> r \<and> r \<le> 90) \<or> (192 \<le> r \<and> r \<le> 214) \<or> (216 \<le> r \<and> r \<le> 222))"

definition unicode_ToUpper :: "nat \<Rightarrow> nat" where
  "unicode_ToUpper r =
     (if 97 \<le> r \<and> r \<le> 122 then r - 32
      else if r = 181 then 924
      else if (224 \<le> r \<and> r \<le> 246) \<or> (248 \<le> r \<and> r \<le> 254) then r - 32
      else if r = 255 then 376
      else r)"

definition string_of_rune :: "nat \<Rightarrow> string" where
  "string_of_rune r =
     (if r < 128 then [char_of r]
      else [char_of (192 + r div 64), char_of (128 + r mod 64)])"

fun tocamelcase :: "string \<Rightarrow> string" where
  "tocamelcase [] = []"
| "tocamelcase (c # cs) = string_of_rune (unicode_ToUpper (of_char c)) @ cs"

section \<open>The classifier\<close>

definition signedTypes :: "string list" where
  "signedTypes = [''int8'', ''int16'', ''int32'', ''int64'']"

definition unsignedTypes :: "string list" where
  "unsignedTypes = [''uint8'', ''uint16'', ''uint32'', ''uint64'']"

fun isRawStructType :: "field list \<Rightarrow> bool" where
  "isRawStructType [] = True"
| "isRawStructType (f # fs) =
     (let t = tostr (FType f) in
      if t = ''bool'' then isRawStructType fs
      else if t \<in> set signedTypes then isRawStructType fs
      else if t \<in> set unsignedTypes then isRawStructType fs
      else if t = ''float32'' \<or> t = ''float64'' then isRawStructType fs
      else if t = ''raw.Time'' \<or> t = ''raw.Duration'' then isRawStructType fs
      else if t = ''raw.String'' then isRawStructType fs
      else False)"

section \<open>The emitters\<close>

text \<open>
  Each emitter appends to the buffer it is given and returns the buffer with the error,
  if any: what was written before a failure stays in the buffer, as in the source.
\<close>

abbreviation (input) NL :: string where "NL \<equiv> ''\<newline>''"
abbreviation (input) TAB :: string where "TAB \<equiv> [CHR 0x09]"

definition externalType :: "string \<Rightarrow> string option" where
  "externalType t =
     (if t = ''bool'' then Some ''bool''
      else if t \<in> set signedTypes then Some ''int''
      else if t \<in> set unsignedTypes then Some ''uint''
      else if t = ''float32'' then Some ''float32''
      else if t = ''float64'' then Some ''float64''
      else if t = ''raw.Time'' then Some ''time.Time''
      else if t = ''raw.Duration'' then Some ''time.Duration''
      else if t = ''raw.String'' then Some ''string''
      else None)"

fun exportedFields :: "field list \<Rightarrow> string \<Rightarrow> string \<times> error option" where
  "exportedFields [] w = (w, None)"
| "exportedFields (f # fs) w =
     (case externalType (tostr (FType f)) of
        None \<Rightarrow> (w, Some (InvalidRawType (tostr (FType f))))
      | Some typ \<Rightarrow>
          exportedFields fs
            (w @ concat (map (\<lambda>n. TAB @ tocamelcase n @ '' '' @ typ @ NL) (Names f))))"

definition writeExportedType :: "string \<Rightarrow> field list \<Rightarrow> string \<Rightarrow> string \<times> error option" where
  "writeExportedType name fields w =
     (case exportedFields fields (w @ ''type '' @ name @ '' struct {'' @ NL) of
        (w', Some e) \<Rightarrow> (w', Some e)
      | (w', None) \<Rightarrow> (w' @ ''}'' @ NL @ NL, None))"

definition castTypes :: "string list" where
  "castTypes = signedTypes @ unsignedTypes @ [''float32'', ''float64'']"

text \<open>
  The loop over the names of one field in \<^verbatim>\<open>writeEncodeFunc\<close>. The variable
  \<^verbatim>\<open>typ\<close> is set once per field and assigned \<^verbatim>\<open>"uint"\<close> after a numeric name
  has been written, so it is threaded through the loop; the error message uses
  \<^verbatim>\<open>tostr(f.Type)\<close>, passed as \<open>ft\<close>.
\<close>

fun encodeNames :: "string \<Rightarrow> string \<Rightarrow> string list \<Rightarrow> string \<Rightarrow> string \<times> error option" where
  "encodeNames ft typ [] w = (w, None)"
| "encodeNames ft typ (n # ns) w =
     (if typ = ''bool'' then
        encodeNames ft typ ns (w @ TAB @ ''r.'' @ n @ '' = o.'' @ tocamelcase n @ NL)
      else if typ \<in> set castTypes then
        encodeNames ft ''uint'' ns
          (w @ TAB @ ''r.'' @ n @ '' = '' @ typ @ ''(o.'' @ tocamelcase n @ '')'' @ NL)
      else if typ = ''raw.Time'' then
        encodeNames ft typ ns
          (w @ TAB @ ''r.'' @ n @ '' = raw.Time(o.'' @ tocamelcase n @ ''.UnixNano())'' @ NL)
      else if typ = ''raw.Duration'' then
        encodeNames ft typ ns
          (w @ TAB @ ''r.'' @ n @ '' = raw.Duration(o.'' @ tocamelcase n @ '')'' @ NL)
      else if typ = ''raw.String'' then
        encodeNames ft typ ns
          (w @ TAB @ ''r.'' @ n @ ''.Encode(o.'' @ tocamelcase n @ '', &b)'' @ NL)
      else (w, Some (InvalidRawType ft)))"

fun encodeFields :: "field list \<Rightarrow> string \<Rightarrow> string \<times> error option" where
  "encodeFields [] w = (w, None)"
| "encodeFields (f # fs) w =
     (case encodeNames (tostr (FType f)) (tostr (FType f)) (Names f) w of
        (w', Some e) \<Rightarrow> (w', Some e)
      | (w', None) \<Rightarrow> encodeFields fs w')"

definition writeEncodeFunc :: "string \<Rightarrow> string \<Rightarrow> field list \<Rightarrow> string \<Rightarrow> string \<times> error option" where
  "writeEncodeFunc unexp exp fields w =
     (case encodeFields fields
             (w @ ''func (o *'' @ exp @ '') Encode() []byte {'' @ NL
                @ TAB @ ''var r '' @ unexp @ NL
                @ TAB @ ''b := make([]byte, unsafe.Sizeof(r), int(unsafe.Sizeof(r)))'' @ NL) of
        (w', Some e) \<Rightarrow> (w', Some e)
      | (w', None) \<Rightarrow>
          (w' @ TAB @ ''copy(b, (*[unsafe.Sizeof(r)]byte)(unsafe.Pointer(&r))[:])'' @ NL
              @ TAB @ ''return b'' @ NL
              @ ''}'' @ NL @ NL, None))"

definition decodeLines :: "field list \<Rightarrow> string" where
  "decodeLines fields =
     concat (map (\<lambda>f. concat (map (\<lambda>n. TAB @ ''o.'' @ tocamelcase n @ '' = r.''
                                          @ tocamelcase n @ ''()'' @ NL) (Names f))) fields)"

definition writeDecodeFunc :: "string \<Rightarrow> string \<Rightarrow> field list \<Rightarrow> string \<Rightarrow> string \<times> error option" where
  "writeDecodeFunc unexp exp fields w =
     (w @ ''func (o *'' @ exp @ '') Decode(b []byte) {'' @ NL
        @ TAB @ ''r := (*'' @ unexp @ '')(unsafe.Pointer(&b[0]))'' @ NL
        @ decodeLines fields
        @ ''}'' @ NL @ NL, None)"

fun accessorNames :: "string \<Rightarrow> string \<Rightarrow> string list \<Rightarrow> string \<Rightarrow> string \<times> error option" where
  "accessorNames name typ [] w = (w, None)"
| "accessorNames name typ (n # ns) w =
     (if typ = ''bool'' then
        accessorNames name typ ns
          (w @ ''func (r *'' @ name @ '') '' @ tocamelcase n @ ''() bool { return r.'' @ n
             @ '' }'' @ NL @ NL)
      else if typ \<in> set signedTypes then
        accessorNames name typ ns
          (w @ ''func (r *'' @ name @ '') '' @ tocamelcase n @ ''() int { return int(r.'' @ n
             @ '') }'' @ NL @ NL)
      else if typ \<in> set unsignedTypes then
        accessorNames name typ ns
          (w @ ''func (r *'' @ name @ '') '' @ tocamelcase n @ ''() uint { return uint(r.'' @ n
             @ '') }'' @ NL @ NL)
      else if typ = ''float32'' \<or> typ = ''float64'' then
        accessorNames name typ ns
          (w @ ''func (r *'' @ name @ '') '' @ tocamelcase n @ ''() '' @ typ @ '' { return r.''
             @ n @ '' }'' @ NL @ NL)
      else if typ = ''raw.Time'' then
        accessorNames name typ ns
          (w @ ''func (r *'' @ name @ '') '' @ tocamelcase n
             @ ''() time.Time { return time.Unix(0, int64(r.'' @ n @ '')).UTC() }'' @ NL @ NL)
      else if typ = ''raw.Duration'' then
        accessorNames name typ ns
          (w @ ''func (r *'' @ name @ '') '' @ tocamelcase n
             @ ''() time.Duration { return time.Duration(r.'' @ n @ '') }'' @ NL @ NL)
      else if typ = ''raw.String'' then
        accessorNames name typ ns
          (w @ ''func (r *'' @ name @ '') '' @ tocamelcase n @ ''() string { return r.'' @ n
             @ ''.String(((*[0xFFFF]byte)(unsafe.Pointer(r)))[:]) }'' @ NL
             @ ''func (r *'' @ name @ '') '' @ tocamelcase n @ ''Bytes() []byte { return r.'' @ n
             @ ''.Bytes(((*[0xFFFF]byte)(unsafe.Pointer(r)))[:]) }'' @ NL @ NL)
      else (w, Some (InvalidRawType typ)))"

fun writeAccessorFuncs :: "string \<Rightarrow> field list \<Rightarrow> string \<Rightarrow> string \<times> error option" where
  "writeAccessorFuncs name [] w = (w, None)"
| "writeAccessorFuncs name (f # fs) w =
     (case accessorNames name (tostr (FType f)) (Names f) w of
        (w', Some e) \<Rightarrow> (w', Some e)
      | (w', None) \<Rightarrow> writeAccessorFuncs name fs w')"

section \<open>The generator\<close>

record generator =
  g_w :: string
  g_err :: "error option"

definition beginMarker :: string where
  "beginMarker = ''//raw:codegen:begin''"

definition endMarker :: string where
  "endMarker = ''//raw:codegen:end''"

definition boilerplate :: string where
  "boilerplate = ''//'' @ NL @ ''// DO NOT CHANGE'' @ NL
     @ ''// This section has been generated by bolt-rawgen.'' @ NL @ ''//'' @ NL @ NL"

text \<open>
  \<^verbatim>\<open>visitTypeSpec\<close> returns the generator, whose buffer it has written to, and the
  error. Its second half, from the begin marker to the end marker, is \<open>emitAll\<close>: the
  error an emitter returns is replaced by the error that names the emitter. Indexing
  the name at 0 panics in Go when the name is empty.
\<close>

definition emitAll :: "generator \<Rightarrow> string \<Rightarrow> string \<Rightarrow> field list \<Rightarrow> generator \<times> error option" where
  "emitAll g unexp exp s =
     (case writeExportedType exp s (g_w g @ beginMarker @ NL @ NL @ boilerplate) of
        (w1, Some e) \<Rightarrow> (g\<lparr>g_w := w1\<rparr>, Some GenerateExportedType)
      | (w1, None) \<Rightarrow>
          (case writeEncodeFunc unexp exp s w1 of
             (w2, Some e) \<Rightarrow> (g\<lparr>g_w := w2\<rparr>, Some GenerateEncodeFunc)
           | (w2, None) \<Rightarrow>
               (case writeDecodeFunc unexp exp s w2 of
                  (w3, Some e) \<Rightarrow> (g\<lparr>g_w := w3\<rparr>, Some GenerateDecodeFunc)
                | (w3, None) \<Rightarrow>
                    (case writeAccessorFuncs unexp s w3 of
                       (w4, Some e) \<Rightarrow> (g\<lparr>g_w := w4\<rparr>, Some GenerateAccessorFuncs)
                     | (w4, None) \<Rightarrow> (g\<lparr>g_w := w4 @ endMarker @ NL @ NL\<rparr>, None)))))"

definition visitTypeSpec :: "generator \<Rightarrow> typeSpec \<Rightarrow> generator \<times> error option" where
  "visitTypeSpec g node =
     (case SType node of
        OtherType \<Rightarrow> (g, None)
      | StructType s \<Rightarrow>
          (if \<not> isRawStructType s then (g, None)
           else (case Name node of
                   [] \<Rightarrow> (g, Some IndexOutOfRange)
                 | c # cs \<Rightarrow>
                     (if unicode_IsUpper (of_char c)
                      then (g, Some (RawStructExported (Name node)))
                      else emitAll g (Name node) (tocamelcase (Name node)) s))))"

text \<open>\<^verbatim>\<open>Visit\<close> on a type declaration; once an error is recorded nothing more is visited.\<close>

definition Visit :: "generator \<Rightarrow> typeSpec \<Rightarrow> generator" where
  "Visit g node =
     (if g_err g \<noteq> None then g
      else case visitTypeSpec g node of
             (g', Some e) \<Rightarrow> g'\<lparr>g_err := Some e\<rparr>
           | (g', None) \<Rightarrow> g')"

definition Walk :: "generator \<Rightarrow> typeSpec list \<Rightarrow> generator" where
  "Walk g f = foldl Visit g f"

section \<open>The regeneration driver\<close>

text \<open>
  The pattern \<^verbatim>\<open>(?is)//raw:codegen:begin.+?//raw:codegen:end\<close>. Under
  \<^verbatim>\<open>(?i)\<close> a letter of the pattern matches itself and its capital (none of the
  letters used has a further case variant in Unicode); the other characters match
  themselves. A match starts at the leftmost begin marker that is followed, after at
  least one character, by an end marker, and \<^verbatim>\<open>.+?\<close> stops at the first such end
  marker. The end marker starts with an ASCII character, which never lies inside a
  multi-byte character, so searching byte by byte finds what the pattern finds.
  \<^verbatim>\<open>ReplaceAll\<close> deletes the match and goes on behind it.
\<close>

definition foldEq :: "char \<Rightarrow> char \<Rightarrow> bool" where
  "foldEq p c =
     (if c = p then True
      else if 97 \<le> (of_char p :: nat) \<and> (of_char p :: nat) \<le> 122
      then (of_char c :: nat) + 32 = of_char p
      else False)"

fun matchFold :: "string \<Rightarrow> string \<Rightarrow> bool" where
  "matchFold [] s = True"
| "matchFold (p # ps) [] = False"
| "matchFold (p # ps) (c # cs) = (if foldEq p c then matchFold ps cs else False)"

fun afterEnd :: "string \<Rightarrow> string option" where
  "afterEnd [] = None"
| "afterEnd (c # cs) =
     (if matchFold endMarker (c # cs) then Some (drop (length endMarker) (c # cs))
      else afterEnd cs)"

function stripGenerated :: "string \<Rightarrow> string" where
  "stripGenerated [] = []"
| "stripGenerated (c # cs) =
     (if matchFold beginMarker (c # cs) then
        (case drop (length beginMarker) (c # cs) of
           [] \<Rightarrow> c # stripGenerated cs
         | d # ds \<Rightarrow>
             (case afterEnd ds of
                None \<Rightarrow> c # stripGenerated cs
              | Some rest \<Rightarrow> stripGenerated rest))
      else c # stripGenerated cs)"
  by pat_completeness auto
termination
proof (relation "measure length")
  show "wf (measure length)" by simp
next
  fix c :: char and cs x21 x22 x2
  assume "drop (length beginMarker) (c # cs) = x21 # x22" and a: "afterEnd x22 = Some x2"
  then have l: "length x22 < length (c # cs)"
    by (metis Suc_le_lessD length_Cons length_drop diff_le_self)
  have "\<And>r. afterEnd s = Some r \<Longrightarrow> length r \<le> length s" for s
    by (induction s) (auto split: if_splits)
  with a have "length x2 \<le> length x22" by blast
  with l show "(x2, c # cs) \<in> measure length" by simp
qed auto

declare stripGenerated.simps [simp del]

text \<open>\<^verbatim>\<open>strings.TrimRight(s, " \n\r")\<close>.\<close>

definition cutset :: "char list" where
  "cutset = [CHR '' '', CHR ''\<newline>'', CHR 0x0D]"

definition trimRight :: "string \<Rightarrow> string" where
  "trimRight s = rev (dropWhile (\<lambda>c. c \<in> set cutset) (rev s))"

subsection \<open>Files\<close>

text \<open>
  A file has its bytes and whether it may be written. \<^verbatim>\<open>ioutil.WriteFile\<close> creates a
  missing file, replaces the bytes of a writable one, and on a file that may not be
  written returns an error and changes nothing.
\<close>

record osfile =
  content :: string
  writable :: bool

type_synonym filesystem = "string \<rightharpoonup> osfile"

definition ReadFile :: "string \<Rightarrow> filesystem \<Rightarrow> error + string" where
  "ReadFile path fs = (case fs path of None \<Rightarrow> Inl ReadFileError | Some f \<Rightarrow> Inr (content f))"

definition WriteFile :: "string \<Rightarrow> string \<Rightarrow> filesystem \<Rightarrow> filesystem \<times> error option" where
  "WriteFile path data fs =
     (case fs path of
        None \<Rightarrow> (fs(path \<mapsto> \<lparr>content = data, writable = True\<rparr>), None)
      | Some f \<Rightarrow>
          (if writable f then (fs(path \<mapsto> f\<lparr>content := data\<rparr>), None)
           else (fs, Some WriteFileError)))"

text \<open>
  \<^verbatim>\<open>process\<close>, with Go's parser as the parameter \<open>parse\<close>. The result is the
  returned error, the files afterwards and the lines logged. The error that
  \<^verbatim>\<open>ioutil.WriteFile\<close> returns is dropped, as the source drops it.
\<close>

definition process ::
  "(string \<Rightarrow> error + typeSpec list) \<Rightarrow> string \<Rightarrow> filesystem
     \<Rightarrow> error option \<times> filesystem \<times> string list" where
  "process parse path fs =
     (case ReadFile path fs of
        Inl e \<Rightarrow> (Some e, fs, [])
      | Inr b0 \<Rightarrow>
          (let b = trimRight (stripGenerated b0) in
           case parse b of
             Inl e \<Rightarrow> (Some e, fs, [])
           | Inr f \<Rightarrow>
               (let g = Walk \<lparr>g_w = b @ NL @ NL, g_err = None\<rparr> f in
                case g_err g of
                  Some e \<Rightarrow> (Some e, fs, [])
                | None \<Rightarrow> (None, fst (WriteFile path (g_w g) fs), [''OK '' @ path]))))"

section \<open>Notions used in the properties\<close>

text \<open>The closed set of raw type names.\<close>

definition rawTypes :: "string list" where
  "rawTypes = [''bool'', ''int8'', ''int16'', ''int32'', ''int64'',
               ''uint8'', ''uint16'', ''uint32'', ''uint64'',
               ''float32'', ''float64'', ''raw.Time'', ''raw.Duration'', ''raw.String'']"

text \<open>A declaration is eligible when it declares a struct type that the classifier accepts.\<close>

definition isEligible :: "typeSpec \<Rightarrow> bool" where
  "isEligible t = (case SType t of StructType s \<Rightarrow> isRawStructType s | OtherType \<Rightarrow> False)"

text \<open>The external type of each raw type name, as the specification lists them.\<close>

definition externalTypes :: "(string \<times> string) list" where
  "externalTypes =
     [(''int8'', ''int''), (''int16'', ''int''), (''int32'', ''int''), (''int64'', ''int''),
      (''uint8'', ''uint''), (''uint16'', ''uint''), (''uint32'', ''uint''), (''uint64'', ''uint''),
      (''bool'', ''bool''), (''float32'', ''float32''), (''float64'', ''float64''),
      (''raw.Time'', ''time.Time''), (''raw.Duration'', ''time.Duration''),
      (''raw.String'', ''string'')]"

definition externalOf :: "string \<Rightarrow> string" where
  "externalOf t = (case map_of externalTypes t of Some e \<Rightarrow> e | None \<Rightarrow> [])"

text \<open>The lines that one field declaration contributes to the exported type.\<close>

definition fieldLines :: "field \<Rightarrow> string" where
  "fieldLines f =
     concat (map (\<lambda>n. TAB @ tocamelcase n @ '' '' @ externalOf (tostr (FType f)) @ NL) (Names f))"

text \<open>
  The code the four emitters write for a struct, and the block that holds it between the
  two markers.
\<close>

definition codeOf :: "string \<Rightarrow> field list \<Rightarrow> string" where
  "codeOf name s =
     fst (writeExportedType (tocamelcase name) s [])
     @ fst (writeEncodeFunc name (tocamelcase name) s [])
     @ fst (writeDecodeFunc name (tocamelcase name) s [])
     @ fst (writeAccessorFuncs name s [])"

definition block :: "typeSpec \<Rightarrow> string" where
  "block t =
     (case SType t of
        StructType s \<Rightarrow> beginMarker @ NL @ NL @ boilerplate @ codeOf (Name t) s @ endMarker @ NL @ NL
      | OtherType \<Rightarrow> [])"

text \<open>
  Occurrences of a marker in a text, in any letter case: whether there is one, and how
  many there are.
\<close>

fun containsFold :: "string \<Rightarrow> string \<Rightarrow> bool" where
  "containsFold p [] = False"
| "containsFold p (c # cs) = (matchFold p (c # cs) \<or> containsFold p cs)"

fun countFold :: "string \<Rightarrow> string \<Rightarrow> nat" where
  "countFold p [] = 0"
| "countFold p (c # cs) = (if matchFold p (c # cs) then 1 else 0) + countFold p cs"

text \<open>
  Go identifiers consist of letters, digits and underscores. Of that, the proofs only
  need that no name contains a slash.
\<close>

definition plainName :: "string \<Rightarrow> bool" where
  "plainName n = (CHR ''/'' \<notin> set n)"

definition identsOK :: "typeSpec \<Rightarrow> bool" where
  "identsOK t =
     (plainName (Name t) \<and>
      (case SType t of
         StructType s \<Rightarrow> list_all (\<lambda>f. list_all plainName (Names f)) s
       | OtherType \<Rightarrow> True))"

text \<open>
  Capitalising the first letter of a name that starts with an ASCII character, and the
  lines that one field declaration is to contribute to the exported type: one for each
  declared name, with the capitalised name and the external type.
\<close>

definition asciiInitial :: "string \<Rightarrow> bool" where
  "asciiInitial n = (case n of [] \<Rightarrow> True | c # cs \<Rightarrow> (of_char c :: nat) < 128)"

fun capitalize :: "string \<Rightarrow> string" where
  "capitalize [] = []"
| "capitalize (c # cs) =
     (if 97 \<le> (of_char c :: nat) \<and> (of_char c :: nat) \<le> 122
      then char_of ((of_char c :: nat) - 32) else c) # cs"

definition declaredLines :: "field \<Rightarrow> string" where
  "declaredLines f =
     concat (map (\<lambda>n. TAB @ capitalize n @ '' '' @ externalOf (tostr (FType f)) @ NL) (Names f))"

subsection \<open>Go sources used as examples\<close>

text \<open>
  Each example is a Go source text with the type declarations that \<^verbatim>\<open>parser.ParseFile\<close>
  finds in it; \<open>parseKnown\<close> parses these texts and rejects every other.
\<close>

definition srcPlain :: string where
  "srcPlain = ''package a''"

definition srcBad :: string where
  "srcBad = ''package a'' @ NL @ ''type Bad struct { n int32 }''"

definition srcPoint :: string where
  "srcPoint = ''package a'' @ NL @ ''type point struct { x int32; y int32 }''"

definition srcTwo :: string where
  "srcTwo = ''package a'' @ NL @ ''type p struct {}'' @ NL @ ''type q struct {}''"

definition srcMarked :: string where
  "srcMarked = srcPlain @ NL @ beginMarker @ NL @ ''type t struct {}''"

text \<open>
  Names in UTF-8 that start with a letter outside ASCII. The capital A with ring below
  (U+1E00) has the bytes E1 B8 80: alone and followed by b it is an exported name in Go.
  The small e with acute accent (U+00E9) has the bytes C3 A9: alone and in the French
  word for summer it is a name that is not exported.
\<close>

definition nameUpperA :: string where
  "nameUpperA = [CHR 0xE1, CHR 0xB8, CHR 0x80]"

definition nameUpperAb :: string where
  "nameUpperAb = [CHR 0xE1, CHR 0xB8, CHR 0x80, CHR ''b'']"

definition nameE :: string where
  "nameE = [CHR 0xC3, CHR 0xA9]"

definition nameEte :: string where
  "nameEte = [CHR 0xC3, CHR 0xA9, CHR ''t'', CHR 0xC3, CHR 0xA9]"

definition srcUpper :: string where
  "srcUpper = ''package a'' @ NL @ ''type '' @ nameUpperAb @ '' struct { n int32 }''"

text \<open>
  The fields of a struct with an embedded \<^verbatim>\<open>raw.Time\<close>, which has no name, and an
  \<^verbatim>\<open>int32\<close> field named by the small e with acute accent.
\<close>

definition embeddedFields :: "field list" where
  "embeddedFields = [Field [] (SelectorExpr (Ident ''raw'') ''Time''), Field [nameE] (Ident ''int32'')]"

definition pointFields :: "field list" where
  "pointFields = [Field [''x''] (Ident ''int32''), Field [''y''] (Ident ''int32'')]"

definition goSources :: "(string \<times> typeSpec list) list" where
  "goSources =
     [(srcPlain, []),
      (srcBad, [TypeSpec ''Bad'' (StructType [Field [''n''] (Ident ''int32'')])]),
      (srcPoint, [TypeSpec ''point'' (StructType pointFields)]),
      (srcTwo, [TypeSpec ''p'' (StructType []), TypeSpec ''q'' (StructType [])]),
      (srcMarked, [TypeSpec ''t'' (StructType [])]),
      (srcUpper, [TypeSpec nameUpperAb (StructType [Field [''n''] (Ident ''int32'')])])]"

definition parseKnown :: "string \<Rightarrow> error + typeSpec list" where
  "parseKnown b = (case map_of goSources b of Some ts \<Rightarrow> Inr ts | None \<Rightarrow> Inl (ParseError b))"

definition plainFile :: osfile where
  "plainFile = \<lparr>content = srcPlain, writable = True\<rparr>"

definition lockedFile :: osfile where
  "lockedFile = \<lparr>content = srcPlain, writable = False\<rparr>"

definition badFile :: osfile where
  "badFile = \<lparr>content = srcBad, writable = True\<rparr>"

definition pointFile :: osfile where
  "pointFile = \<lparr>content = srcPoint, writable = True\<rparr>"

text \<open>
  A file processed when it held the declaration of \<^verbatim>\<open>p\<close> alone, to which the
  declaration of \<^verbatim>\<open>q\<close> has been added by hand since.
\<close>

definition regenFile :: osfile where
  "regenFile = \<lparr>content = srcTwo @ NL @ NL @ block (TypeSpec ''p'' (StructType [])),
                 writable = True\<rparr>"

definition upperFile :: osfile where
  "upperFile = \<lparr>content = srcUpper, writable = True\<rparr>"

definition markedFile :: osfile where
  "markedFile = \<lparr>content = srcMarked, writable = True\<rparr>"

section \<open>Properties\<close>

subsection \<open>The walk\<close>

lemma Walk_Nil: "Walk g [] = g"
  by (simp add: Walk_def)

lemma Walk_Cons: "Walk g (t # ts) = Walk (Visit g t) ts"
  by (simp add: Walk_def)

lemma Walk_append: "Walk g (xs @ ys) = Walk (Walk g xs) ys"
  by (simp add: Walk_def)

lemma Walk_failed: "g_err g = Some e \<Longrightarrow> Walk g ts = g"
  by (induction ts) (simp_all add: Walk_Nil Walk_Cons Visit_def)

lemma Visit_keeps_error: "g_err g = Some e \<Longrightarrow> g_err (Visit g t) = Some e"
  by (simp add: Visit_def)

lemma visit_ineligible: "\<not> isEligible t \<Longrightarrow> visitTypeSpec g t = (g, None)"
  by (cases t) (auto simp: isEligible_def visitTypeSpec_def split: type_expr.splits)

lemma Visit_ineligible: "\<not> isEligible t \<Longrightarrow> Visit g t = g"
  by (simp add: Visit_def visit_ineligible)

lemma Walk_ineligible: "\<forall>t \<in> set ts. \<not> isEligible t \<Longrightarrow> Walk g ts = g"
  by (induction ts) (simp_all add: Walk_Nil Walk_Cons Visit_ineligible)

lemma no_eligible_walk:
  assumes "fs path = Some f"
      and "parse (trimRight (stripGenerated (content f))) = Inr specs"
      and "\<forall>t \<in> set specs. \<not> isEligible t"
  shows "process parse path fs =
           (None, fst (WriteFile path (trimRight (stripGenerated (content f)) @ NL @ NL) fs),
            [''OK '' @ path])"
  using assms by (simp add: process_def ReadFile_def Walk_ineligible)

lemma visit_keeps_err: "g_err (fst (visitTypeSpec g t)) = g_err g"
  by (auto simp: visitTypeSpec_def emitAll_def split: type_expr.splits list.splits prod.splits
      option.splits)

lemma Visit_no_error:
  assumes "g_err g = None" and "snd (visitTypeSpec g t) = None"
  shows "g_err (Visit g t) = None"
proof -
  obtain g' e where v: "visitTypeSpec g t = (g', e)"
    by (cases "visitTypeSpec g t")
  with visit_keeps_err [of g t] assms show ?thesis
    by (simp add: Visit_def)
qed

lemma process_walk_error:
  assumes "fs path = Some f"
      and "parse (trimRight (stripGenerated (content f))) = Inr specs"
      and "g_err (Walk \<lparr>g_w = trimRight (stripGenerated (content f)) @ NL @ NL, g_err = None\<rparr> specs)
             = Some e"
  shows "process parse path fs = (Some e, fs, [])"
  using assms by (simp add: process_def ReadFile_def)

subsection \<open>The example sources contain no generated block\<close>

lemma strip_srcPlain: "trimRight (stripGenerated srcPlain) = srcPlain"
  by (simp add: srcPlain_def stripGenerated.simps trimRight_def cutset_def beginMarker_def
      foldEq_def)

lemma strip_srcBad: "trimRight (stripGenerated srcBad) = srcBad"
  by (simp add: srcBad_def stripGenerated.simps trimRight_def cutset_def beginMarker_def
      foldEq_def)

lemma parse_srcPlain: "parseKnown srcPlain = Inr []"
  by (simp add: parseKnown_def goSources_def)

lemma parse_srcBad:
  "parseKnown srcBad = Inr [TypeSpec ''Bad'' (StructType [Field [''n''] (Ident ''int32'')])]"
  by (simp add: parseKnown_def goSources_def srcPlain_def srcBad_def)

lemma strip_srcPoint: "trimRight (stripGenerated srcPoint) = srcPoint"
  by (simp add: srcPoint_def stripGenerated.simps trimRight_def cutset_def beginMarker_def
      foldEq_def)

lemma parse_srcPoint: "parseKnown srcPoint = Inr [TypeSpec ''point'' (StructType pointFields)]"
  by (simp add: parseKnown_def goSources_def srcPlain_def srcBad_def srcPoint_def)

lemma plain_srcPoint: "\<not> containsFold beginMarker srcPoint"
  by (simp add: srcPoint_def beginMarker_def foldEq_def)

lemma strip_srcTwo: "trimRight (stripGenerated srcTwo) = srcTwo"
  by (simp add: srcTwo_def stripGenerated.simps trimRight_def cutset_def beginMarker_def
      foldEq_def)

lemma parse_srcTwo:
  "parseKnown srcTwo = Inr [TypeSpec ''p'' (StructType []), TypeSpec ''q'' (StructType [])]"
  by (simp add: parseKnown_def goSources_def srcPlain_def srcBad_def srcPoint_def srcTwo_def)

lemma plain_srcTwo: "\<not> containsFold beginMarker srcTwo"
  by (simp add: srcTwo_def beginMarker_def foldEq_def)

lemma parse_srcMarked: "parseKnown srcMarked = Inr [TypeSpec ''t'' (StructType [])]"
  by (simp add: parseKnown_def goSources_def srcPlain_def srcBad_def srcPoint_def srcTwo_def
      srcMarked_def beginMarker_def)

lemma plain_srcPlain: "\<not> containsFold beginMarker srcPlain"
  by (simp add: srcPlain_def beginMarker_def foldEq_def)

subsection \<open>The classifier and the closed type set\<close>

lemma isRawStructType_iff:
  "isRawStructType flds \<longleftrightarrow> (\<forall>f \<in> set flds. tostr (FType f) \<in> set rawTypes)"
  by (induction flds) (auto simp: Let_def rawTypes_def signedTypes_def unsignedTypes_def)

text \<open>
  C6: a struct with a field whose declared type is not one of the raw type names is not
  raw; \<^verbatim>\<open>visitTypeSpec\<close> returns no error and writes nothing, and the visit leaves the
  generator as it was, whatever the other fields are.
\<close>

theorem closed_type_set:
  assumes "f \<in> set flds" and "tostr (FType f) \<notin> set rawTypes"
  shows "\<not> isRawStructType flds
       \<and> visitTypeSpec g (TypeSpec name (StructType flds)) = (g, None)
       \<and> Visit g (TypeSpec name (StructType flds)) = g"
proof -
  from assms have n: "\<not> isRawStructType flds"
    by (auto simp: isRawStructType_iff)
  then have v: "visitTypeSpec g (TypeSpec name (StructType flds)) = (g, None)"
    by (simp add: visitTypeSpec_def)
  from n v show ?thesis by (simp add: Visit_def)
qed

theorem closed_type_set_witness:
  "\<not> isRawStructType [Field [''n''] (Ident ''int32''), Field [''s''] (Ident ''string'')]
   \<and> visitTypeSpec \<lparr>g_w = ''package a'', g_err = None\<rparr>
        (TypeSpec ''mixed'' (StructType [Field [''n''] (Ident ''int32''), Field [''s''] (Ident ''string'')]))
       = (\<lparr>g_w = ''package a'', g_err = None\<rparr>, None)"
proof -
  have h1: "Field [''s''] (Ident ''string'')
              \<in> set [Field [''n''] (Ident ''int32''), Field [''s''] (Ident ''string'')]"
    by simp
  have h2: "tostr (FType (Field [''s''] (Ident ''string''))) \<notin> set rawTypes"
    by (simp add: rawTypes_def)
  from closed_type_set [OF h1 h2, of "\<lparr>g_w = ''package a'', g_err = None\<rparr>" "''mixed''"]
  show ?thesis by simp
qed

subsection \<open>Exported raw structs\<close>

lemma Walk_exported_first:
  assumes "isRawStructType flds" and "unicode_IsUpper (of_char c)" and "g_err (Walk g pre) = None"
  shows "g_err (Walk g (pre @ TypeSpec (c # cs) (StructType flds) # post))
           = Some (RawStructExported (c # cs))"
proof -
  have "Visit (Walk g pre) (TypeSpec (c # cs) (StructType flds))
          = (Walk g pre)\<lparr>g_err := Some (RawStructExported (c # cs))\<rparr>"
    using assms by (simp add: Visit_def visitTypeSpec_def)
  then show ?thesis
    by (simp add: Walk_append Walk_Cons Walk_failed)
qed

lemma Walk_exported_fails:
  assumes "isRawStructType flds" and "unicode_IsUpper (of_char c)"
  shows "\<exists>e. g_err (Walk g (pre @ TypeSpec (c # cs) (StructType flds) # post)) = Some e"
proof (cases "g_err (Walk g pre)")
  case None
  with assms show ?thesis by (simp add: Walk_exported_first)
next
  case (Some e)
  then have "g_err (Visit (Walk g pre) (TypeSpec (c # cs) (StructType flds))) = Some e"
    by (rule Visit_keeps_error)
  then show ?thesis
    by (simp add: Walk_append Walk_Cons Walk_failed)
qed

text \<open>
  A raw struct with a name whose first byte is a capital in Latin-1 makes
  \<^verbatim>\<open>visitTypeSpec\<close> return the exported-raw error without writing to the buffer;
  \<^verbatim>\<open>process\<close> then returns an error, leaves every file as it was and logs nothing.
  The error is the exported-raw error of this declaration when the declarations before
  it were processed without error. So it is for every name that starts with one of A
  to Z, as in \<^verbatim>\<open>type Bad struct { n int32 }\<close>.
\<close>

lemma first_byte_capital_rejected:
  assumes "fs path = Some f"
      and "parse (trimRight (stripGenerated (content f)))
             = Inr (pre @ TypeSpec (c # cs) (StructType flds) # post)"
      and "isRawStructType flds" and "unicode_IsUpper (of_char c)"
  shows "visitTypeSpec g (TypeSpec (c # cs) (StructType flds))
           = (g, Some (RawStructExported (c # cs)))
       \<and> (\<exists>e. process parse path fs = (Some e, fs, []))
       \<and> (g_err (Walk \<lparr>g_w = trimRight (stripGenerated (content f)) @ NL @ NL, g_err = None\<rparr> pre)
             = None
          \<longrightarrow> process parse path fs = (Some (RawStructExported (c # cs)), fs, []))"
proof (intro conjI impI)
  show "visitTypeSpec g (TypeSpec (c # cs) (StructType flds))
          = (g, Some (RawStructExported (c # cs)))"
    using assms(3,4) by (simp add: visitTypeSpec_def)
next
  from Walk_exported_fails [OF assms(3,4)] obtain e where
    "g_err (Walk \<lparr>g_w = trimRight (stripGenerated (content f)) @ NL @ NL, g_err = None\<rparr>
              (pre @ TypeSpec (c # cs) (StructType flds) # post)) = Some e"
    by blast
  from process_walk_error [where fs = fs and path = path and parse = parse, OF assms(1,2) this]
  show "\<exists>e. process parse path fs = (Some e, fs, [])" by blast
next
  assume "g_err (Walk \<lparr>g_w = trimRight (stripGenerated (content f)) @ NL @ NL, g_err = None\<rparr> pre)
            = None"
  from process_walk_error [where fs = fs and path = path and parse = parse,
      OF assms(1,2) Walk_exported_first [OF assms(3,4) this]]
  show "process parse path fs = (Some (RawStructExported (c # cs)), fs, [])" .
qed

lemma bad_struct_rejected:
  "process parseKnown ''a.go'' [''a.go'' \<mapsto> badFile]
     = (Some (RawStructExported ''Bad''), [''a.go'' \<mapsto> badFile], [])"
proof -
  have h1: "[''a.go'' \<mapsto> badFile] ''a.go'' = Some badFile" by simp
  have h2: "parseKnown (trimRight (stripGenerated (content badFile)))
              = Inr ([] @ TypeSpec (CHR ''B'' # ''ad'') (StructType [Field [''n''] (Ident ''int32'')]) # [])"
    by (simp add: badFile_def strip_srcBad parse_srcBad)
  have h3: "isRawStructType [Field [''n''] (Ident ''int32'')]"
    by (simp add: signedTypes_def)
  have h4: "unicode_IsUpper (of_char CHR ''B'')"
    by (simp add: unicode_IsUpper_def)
  from first_byte_capital_rejected [where fs = "[''a.go'' \<mapsto> badFile]" and path = "''a.go''"
      and parse = parseKnown, OF h1 h2 h3 h4] show ?thesis
    by (simp add: Walk_Nil)
qed

subsection \<open>Write errors\<close>

text \<open>
  C5, at a file that can be read and not written: \<^verbatim>\<open>ioutil.WriteFile\<close> returns an error,
  and \<^verbatim>\<open>process\<close> still returns no error and logs the OK line.
\<close>

theorem write_error_dropped:
  "snd (WriteFile ''a.go'' (srcPlain @ NL @ NL) [''a.go'' \<mapsto> lockedFile]) = Some WriteFileError
   \<and> process parseKnown ''a.go'' [''a.go'' \<mapsto> lockedFile]
       = (None, [''a.go'' \<mapsto> lockedFile], [''OK a.go''])"
  by (simp add: process_def ReadFile_def WriteFile_def lockedFile_def strip_srcPlain
      parse_srcPlain Walk_Nil)

subsection \<open>Files without eligible declarations\<close>

text \<open>
  C8, as amended: when no declaration of the file is eligible, \<^verbatim>\<open>process\<close> writes the
  stripped content followed by the two newlines, and no generated block.
\<close>

theorem no_eligible_output:
  assumes "fs path = Some f"
      and "parse (trimRight (stripGenerated (content f))) = Inr specs"
      and "\<forall>t \<in> set specs. \<not> isEligible t"
  shows "process parse path fs =
           (None, fst (WriteFile path (trimRight (stripGenerated (content f)) @ NL @ NL) fs),
            [''OK '' @ path])"
  using assms by (simp add: process_def ReadFile_def Walk_ineligible)

theorem no_eligible_output_witness:
  "process parseKnown ''a.go'' [''a.go'' \<mapsto> plainFile]
     = (None, [''a.go'' \<mapsto> \<lparr>content = srcPlain @ NL @ NL, writable = True\<rparr>], [''OK a.go''])"
proof -
  have h1: "[''a.go'' \<mapsto> plainFile] ''a.go'' = Some plainFile" by simp
  have h2: "parseKnown (trimRight (stripGenerated (content plainFile))) = Inr []"
    by (simp add: plainFile_def strip_srcPlain parse_srcPlain)
  have h3: "\<forall>t \<in> set []. \<not> isEligible t" by simp
  from no_eligible_output [where fs = "[''a.go'' \<mapsto> plainFile]" and path = "''a.go''"
      and parse = parseKnown, OF h1 h2 h3]
  show ?thesis
    by (simp add: plainFile_def strip_srcPlain WriteFile_def)
qed

text \<open>
  C8 as the specification states it fails on the file that holds \<^verbatim>\<open>package a\<close> and
  nothing else: what is written is not the stripped content.
\<close>

theorem nothing_appended_counterexample:
  "map_option content (fst (snd (process parseKnown ''a.go'' [''a.go'' \<mapsto> plainFile])) ''a.go'')
     \<noteq> Some (trimRight (stripGenerated (content plainFile)))"
  by (simp add: process_def ReadFile_def WriteFile_def plainFile_def strip_srcPlain
      parse_srcPlain Walk_Nil)

subsection \<open>Structs without fields\<close>

text \<open>
  A struct without fields is raw. When the first byte of its name is not a capital in
  Latin-1, the block written for it holds an exported type without fields and Encode and
  Decode methods without field lines; when it is, the exported-raw error is returned.
\<close>

lemma empty_struct_visit:
  "visitTypeSpec g (TypeSpec (c # cs) (StructType [])) =
       (if unicode_IsUpper (of_char c) then (g, Some (RawStructExported (c # cs)))
        else (g\<lparr>g_w := g_w g @ beginMarker @ NL @ NL @ boilerplate
                 @ ''type '' @ tocamelcase (c # cs) @ '' struct {'' @ NL @ ''}'' @ NL @ NL
                 @ ''func (o *'' @ tocamelcase (c # cs) @ '') Encode() []byte {'' @ NL
                 @ TAB @ ''var r '' @ (c # cs) @ NL
                 @ TAB @ ''b := make([]byte, unsafe.Sizeof(r), int(unsafe.Sizeof(r)))'' @ NL
                 @ TAB @ ''copy(b, (*[unsafe.Sizeof(r)]byte)(unsafe.Pointer(&r))[:])'' @ NL
                 @ TAB @ ''return b'' @ NL @ ''}'' @ NL @ NL
                 @ ''func (o *'' @ tocamelcase (c # cs) @ '') Decode(b []byte) {'' @ NL
                 @ TAB @ ''r := (*'' @ (c # cs) @ '')(unsafe.Pointer(&b[0]))'' @ NL
                 @ ''}'' @ NL @ NL
                 @ endMarker @ NL @ NL\<rparr>, None))"
  by (simp add: visitTypeSpec_def emitAll_def writeExportedType_def writeEncodeFunc_def
      writeDecodeFunc_def decodeLines_def del: tocamelcase.simps)

text \<open>
  C9, at two structs without fields. The first is named by the French word for summer,
  which is not exported: its first byte C3 is a capital in Latin-1, and the exported-raw
  error is returned. The second is named by the capital A with ring below, which is
  exported: its first byte E1 is a small letter in Latin-1, and a block is written,
  whose exported type has the name with the first byte re-encoded.
\<close>

theorem empty_struct_first_byte:
  "isRawStructType []
   \<and> visitTypeSpec \<lparr>g_w = [], g_err = None\<rparr> (TypeSpec nameEte (StructType []))
       = (\<lparr>g_w = [], g_err = None\<rparr>, Some (RawStructExported nameEte))
   \<and> visitTypeSpec \<lparr>g_w = [], g_err = None\<rparr> (TypeSpec nameUpperA (StructType []))
       = (\<lparr>g_w = beginMarker @ NL @ NL @ boilerplate
                 @ ''type '' @ [CHR 0xC3, CHR 0x81, CHR 0xB8, CHR 0x80] @ '' struct {'' @ NL
                 @ ''}'' @ NL @ NL
                 @ ''func (o *'' @ [CHR 0xC3, CHR 0x81, CHR 0xB8, CHR 0x80]
                 @ '') Encode() []byte {'' @ NL
                 @ TAB @ ''var r '' @ nameUpperA @ NL
                 @ TAB @ ''b := make([]byte, unsafe.Sizeof(r), int(unsafe.Sizeof(r)))'' @ NL
                 @ TAB @ ''copy(b, (*[unsafe.Sizeof(r)]byte)(unsafe.Pointer(&r))[:])'' @ NL
                 @ TAB @ ''return b'' @ NL @ ''}'' @ NL @ NL
                 @ ''func (o *'' @ [CHR 0xC3, CHR 0x81, CHR 0xB8, CHR 0x80]
                 @ '') Decode(b []byte) {'' @ NL
                 @ TAB @ ''r := (*'' @ nameUpperA @ '')(unsafe.Pointer(&b[0]))'' @ NL
                 @ ''}'' @ NL @ NL
                 @ endMarker @ NL @ NL, g_err = None\<rparr>, None)"
  using empty_struct_visit [of "\<lparr>g_w = [], g_err = None\<rparr>" "CHR 0xC3" "[CHR 0xA9, CHR ''t'', CHR 0xC3, CHR 0xA9]"]
    empty_struct_visit [of "\<lparr>g_w = [], g_err = None\<rparr>" "CHR 0xE1" "[CHR 0xB8, CHR 0x80]"]
  by (simp add: nameEte_def nameUpperA_def unicode_IsUpper_def unicode_ToUpper_def
      string_of_rune_def char_of_eq_iff)

subsection \<open>A field with several names\<close>

text \<open>
  C10, at the struct \<^verbatim>\<open>struct { x, y int32 }\<close>: the classifier accepts it, the
  exported-type and accessor emitters write it, and the encode emitter, having set
  \<^verbatim>\<open>typ\<close> to \<^verbatim>\<open>"uint"\<close> after the first name, takes its default branch at the second.
\<close>

theorem encode_fails_on_second_name:
  "isRawStructType [Field [''x'', ''y''] (Ident ''int32'')]
   \<and> snd (writeExportedType ''Point'' [Field [''x'', ''y''] (Ident ''int32'')] []) = None
   \<and> snd (writeAccessorFuncs ''point'' [Field [''x'', ''y''] (Ident ''int32'')] []) = None
   \<and> snd (writeEncodeFunc ''point'' ''Point'' [Field [''x'', ''y''] (Ident ''int32'')] [])
       = Some (InvalidRawType ''int32'')
   \<and> snd (visitTypeSpec \<lparr>g_w = [], g_err = None\<rparr>
            (TypeSpec ''point'' (StructType [Field [''x'', ''y''] (Ident ''int32'')])))
       = Some GenerateEncodeFunc"
  by (simp add: visitTypeSpec_def emitAll_def writeExportedType_def writeEncodeFunc_def
      externalType_def signedTypes_def unsignedTypes_def castTypes_def unicode_IsUpper_def
      Let_def del: tocamelcase.simps)

subsection \<open>The exported type\<close>

lemma externalType_raw:
  "t \<in> set rawTypes \<Longrightarrow> externalType t = Some (externalOf t)"
  by (auto simp: rawTypes_def externalType_def externalOf_def externalTypes_def
      signedTypes_def unsignedTypes_def)

lemma exportedFields_raw:
  "isRawStructType flds \<Longrightarrow>
     exportedFields flds w = (w @ concat (map fieldLines flds), None)"
proof (induction flds arbitrary: w)
  case Nil
  then show ?case by simp
next
  case (Cons f flds)
  from Cons.prems have t: "tostr (FType f) \<in> set rawTypes" and r: "isRawStructType flds"
    by (simp_all add: isRawStructType_iff)
  show ?case
    by (simp add: externalType_raw [OF t] Cons.IH [OF r] fieldLines_def)
qed

lemma tocamelcase_capitalize: "asciiInitial n \<Longrightarrow> tocamelcase n = capitalize n"
proof (cases n)
  case Nil
  then show ?thesis by simp
next
  case (Cons c cs)
  assume "asciiInitial n"
  with Cons have "(of_char c :: nat) < 128" by (simp add: asciiInitial_def)
  with Cons show ?thesis
    by (auto simp: unicode_ToUpper_def string_of_rune_def)
qed

lemma fieldLines_declared:
  "list_all asciiInitial (Names f) \<Longrightarrow> fieldLines f = declaredLines f"
proof -
  assume "list_all asciiInitial (Names f)"
  then have "map (\<lambda>n. TAB @ tocamelcase n @ '' '' @ externalOf (tostr (FType f)) @ NL) (Names f)
           = map (\<lambda>n. TAB @ capitalize n @ '' '' @ externalOf (tostr (FType f)) @ NL) (Names f)"
    by (intro map_cong) (simp_all add: list_all_iff tocamelcase_capitalize del: tocamelcase.simps)
  then show ?thesis
    by (simp only: fieldLines_def declaredLines_def)
qed

text \<open>
  C7, as amended: for a raw struct whose field names start with ASCII characters, the
  exported type declaration has, for every field declaration in order, one line for each
  name it declares (none for an embedded field), with the first letter of the name
  capitalised and the external type of the declared type: int for the signed widths,
  uint for the unsigned ones, bool, float32 and float64 themselves, time.Time,
  time.Duration and string for the three raw types.
\<close>

theorem exported_type_lines:
  assumes "isRawStructType flds"
      and "list_all (\<lambda>f. list_all asciiInitial (Names f)) flds"
  shows "writeExportedType name flds w =
           (w @ ''type '' @ name @ '' struct {'' @ NL @ concat (map declaredLines flds)
              @ ''}'' @ NL @ NL, None)"
proof -
  from assms(2) have m: "map fieldLines flds = map declaredLines flds"
    by (intro map_cong) (simp_all add: list_all_iff fieldLines_declared)
  show ?thesis
    by (simp add: writeExportedType_def exportedFields_raw [OF assms(1)] m)
qed

theorem exported_type_lines_witness:
  "writeExportedType ''Point'' pointFields []
     = (''type Point struct {'' @ NL @ TAB @ ''X int'' @ NL @ TAB @ ''Y int'' @ NL @ ''}'' @ NL @ NL,
        None)
   \<and> tocamelcase ''point'' = ''Point''
   \<and> writeAccessorFuncs ''point'' pointFields []
     = (''func (r *point) X() int { return int(r.x) }'' @ NL @ NL
        @ ''func (r *point) Y() int { return int(r.y) }'' @ NL @ NL, None)"
proof -
  have r: "isRawStructType pointFields"
    by (simp add: pointFields_def signedTypes_def)
  have a: "list_all (\<lambda>f. list_all asciiInitial (Names f)) pointFields"
    by (simp add: pointFields_def asciiInitial_def)
  have x: "tocamelcase ''x'' = ''X''" "tocamelcase ''y'' = ''Y''"
    by (simp_all add: unicode_ToUpper_def string_of_rune_def char_of_eq_iff)
  have "concat (map declaredLines pointFields) = TAB @ ''X int'' @ NL @ TAB @ ''Y int'' @ NL"
    by (simp add: pointFields_def declaredLines_def externalOf_def externalTypes_def
        char_of_eq_iff)
  with exported_type_lines [OF r a, of "''Point''" "[]"]
  have "writeExportedType ''Point'' pointFields []
     = (''type Point struct {'' @ NL @ TAB @ ''X int'' @ NL @ TAB @ ''Y int'' @ NL @ ''}'' @ NL @ NL,
        None)"
    by simp
  moreover have "tocamelcase ''point'' = ''Point''"
    by (simp add: unicode_ToUpper_def string_of_rune_def char_of_eq_iff)
  moreover have "writeAccessorFuncs ''point'' pointFields []
     = (''func (r *point) X() int { return int(r.x) }'' @ NL @ NL
        @ ''func (r *point) Y() int { return int(r.y) }'' @ NL @ NL, None)"
    by (simp add: pointFields_def signedTypes_def x del: tocamelcase.simps)
  ultimately show ?thesis by simp
qed

text \<open>
  C7 as the specification states it fails on the struct with an embedded
  \<^verbatim>\<open>raw.Time\<close> and an \<^verbatim>\<open>int32\<close> field named by the small e with acute accent. The
  struct is raw and has two fields; the exported type has one line, none for the
  embedded field, and the name on that line is the bytes C3 83 A9, the first byte of
  the letter re-encoded and the second left behind, where the capital letter is C3 89.
\<close>

theorem exported_type_lines_counterexample:
  "isRawStructType embeddedFields
   \<and> length embeddedFields = 2
   \<and> writeExportedType ''T'' embeddedFields []
       = (''type T struct {'' @ NL
            @ TAB @ [CHR 0xC3, CHR 0x83, CHR 0xA9] @ '' int'' @ NL
            @ ''}'' @ NL @ NL, None)"
  by (simp add: embeddedFields_def nameE_def writeExportedType_def externalType_def
      signedTypes_def unsignedTypes_def unicode_ToUpper_def string_of_rune_def char_of_eq_iff)

subsection \<open>When the emitters succeed\<close>

text \<open>
  The emitters write every struct the classifier accepts, as long as no field of a
  numeric type declares more than one name: the default branches are reached only
  through the second name of such a field.
\<close>

lemma accessorNames_ok:
  "ty \<in> set rawTypes \<Longrightarrow> snd (accessorNames name ty ns w) = None"
proof (induction ns arbitrary: w ty)
  case Nil
  then show ?case by simp
next
  case (Cons n ns)
  have ih: "\<And>w' ty'. ty' \<in> set rawTypes \<Longrightarrow> snd (accessorNames name ty' ns w') = None"
    using Cons.IH by blast
  from Cons.prems
  have "ty = ''bool'' \<or> ty = ''int8'' \<or> ty = ''int16'' \<or> ty = ''int32'' \<or> ty = ''int64''
      \<or> ty = ''uint8'' \<or> ty = ''uint16'' \<or> ty = ''uint32'' \<or> ty = ''uint64''
      \<or> ty = ''float32'' \<or> ty = ''float64'' \<or> ty = ''raw.Time'' \<or> ty = ''raw.Duration''
      \<or> ty = ''raw.String''"
    by (simp add: rawTypes_def)
  then show ?case
    by (elim disjE) (simp_all add: ih rawTypes_def signedTypes_def unsignedTypes_def)
qed

lemma encodeNames_uncast:
  assumes "ty \<in> set rawTypes" and "ty \<notin> set castTypes"
  shows "snd (encodeNames ft ty ns w) = None"
proof -
  from assms
  have c: "ty = ''bool'' \<or> ty = ''raw.Time'' \<or> ty = ''raw.Duration'' \<or> ty = ''raw.String''"
    by (auto simp: rawTypes_def castTypes_def signedTypes_def unsignedTypes_def)
  have 1: "snd (encodeNames ft ''bool'' ns w) = None" for w
    by (induction ns arbitrary: w) simp_all
  have 2: "snd (encodeNames ft ''raw.Time'' ns w) = None" for w
    by (induction ns arbitrary: w) (simp_all add: castTypes_def signedTypes_def unsignedTypes_def)
  have 3: "snd (encodeNames ft ''raw.Duration'' ns w) = None" for w
    by (induction ns arbitrary: w) (simp_all add: castTypes_def signedTypes_def unsignedTypes_def)
  have 4: "snd (encodeNames ft ''raw.String'' ns w) = None" for w
    by (induction ns arbitrary: w) (simp_all add: castTypes_def signedTypes_def unsignedTypes_def)
  from c show ?thesis
    by (elim disjE) (simp_all only: 1 2 3 4)
qed

lemma encodeNames_single:
  assumes "ty \<in> set rawTypes" and "length ns \<le> 1"
  shows "snd (encodeNames ft ty ns w) = None"
proof (cases "ty \<in> set castTypes")
  case False
  with assms(1) show ?thesis by (rule encodeNames_uncast)
next
  case True
  show ?thesis
  proof (cases ns)
    case Nil
    then show ?thesis by simp
  next
    case (Cons n ns')
    with assms(2) have "ns = [n]" by simp
    with True show ?thesis by simp
  qed
qed

lemma encodeFields_ok:
  assumes "isRawStructType flds"
      and "\<forall>f \<in> set flds. tostr (FType f) \<in> set castTypes \<longrightarrow> length (Names f) \<le> 1"
  shows "snd (encodeFields flds w) = None"
  using assms
proof (induction flds arbitrary: w)
  case Nil
  then show ?case by simp
next
  case (Cons f flds)
  from Cons.prems(1) have t: "tostr (FType f) \<in> set rawTypes" and r: "isRawStructType flds"
    by (simp_all add: isRawStructType_iff)
  have "snd (encodeNames (tostr (FType f)) (tostr (FType f)) (Names f) w) = None"
  proof (cases "tostr (FType f) \<in> set castTypes")
    case True
    with Cons.prems(2) have "length (Names f) \<le> 1" by simp
    with t show ?thesis by (rule encodeNames_single)
  next
    case False
    with t show ?thesis by (rule encodeNames_uncast)
  qed
  moreover have "snd (encodeFields flds w') = None" for w'
    using Cons.IH [OF r] Cons.prems(2) by simp
  ultimately show ?case
    by (cases "encodeNames (tostr (FType f)) (tostr (FType f)) (Names f) w") simp
qed

lemma writeAccessorFuncs_ok:
  "isRawStructType flds \<Longrightarrow> snd (writeAccessorFuncs name flds w) = None"
proof (induction flds arbitrary: w)
  case Nil
  then show ?case by simp
next
  case (Cons f flds)
  from Cons.prems have t: "tostr (FType f) \<in> set rawTypes" and r: "isRawStructType flds"
    by (simp_all add: isRawStructType_iff)
  from accessorNames_ok [OF t, of name "Names f" w] Cons.IH [OF r] show ?case
    by (cases "accessorNames name (tostr (FType f)) (Names f) w") simp
qed

lemma emission_succeeds:
  assumes "isRawStructType flds"
      and "\<forall>f \<in> set flds. tostr (FType f) \<in> set castTypes \<longrightarrow> length (Names f) \<le> 1"
  shows "snd (emitAll g unexp exp flds) = None"
proof -
  let ?w0 = "g_w g @ beginMarker @ NL @ NL @ boilerplate"
  obtain w1 where 1: "writeExportedType exp flds ?w0 = (w1, None)"
    using assms(1) by (simp add: writeExportedType_def exportedFields_raw)
  let ?e0 = "w1 @ ''func (o *'' @ exp @ '') Encode() []byte {'' @ NL
                @ TAB @ ''var r '' @ unexp @ NL
                @ TAB @ ''b := make([]byte, unsafe.Sizeof(r), int(unsafe.Sizeof(r)))'' @ NL"
  obtain e1 where e: "encodeFields flds ?e0 = (e1, None)"
    using encodeFields_ok [OF assms, of ?e0] by (cases "encodeFields flds ?e0") simp
  obtain w2 where 2: "writeEncodeFunc unexp exp flds w1 = (w2, None)"
    unfolding writeEncodeFunc_def e by simp
  obtain w3 where 3: "writeDecodeFunc unexp exp flds w2 = (w3, None)"
    by (simp add: writeDecodeFunc_def)
  obtain w4 where 4: "writeAccessorFuncs unexp flds w3 = (w4, None)"
    using writeAccessorFuncs_ok [OF assms(1), of unexp w3]
    by (cases "writeAccessorFuncs unexp flds w3") simp
  show ?thesis
    unfolding emitAll_def 1 by (simp only: 2 3 4 prod.case option.case snd_conv)
qed

subsection \<open>What a successful walk has written\<close>

lemma exportedFields_append:
  "exportedFields flds (w @ v) = (w @ fst (exportedFields flds v), snd (exportedFields flds v))"
  by (induction flds arbitrary: v) (simp_all split: option.splits)

lemma writeExportedType_append:
  "writeExportedType name flds w
     = (w @ fst (writeExportedType name flds []), snd (writeExportedType name flds []))"
  using exportedFields_append [of flds w "''type '' @ name @ '' struct {'' @ NL"]
  by (simp add: writeExportedType_def split: prod.splits option.splits)

lemma encodeNames_append:
  "encodeNames ft ty ns (w @ v)
     = (w @ fst (encodeNames ft ty ns v), snd (encodeNames ft ty ns v))"
  by (induction ns arbitrary: v ty) simp_all

lemma encodeFields_append:
  "encodeFields flds (w @ v) = (w @ fst (encodeFields flds v), snd (encodeFields flds v))"
proof (induction flds arbitrary: v)
  case Nil
  then show ?case by simp
next
  case (Cons f flds)
  obtain v' e where r: "encodeNames (tostr (FType f)) (tostr (FType f)) (Names f) v = (v', e)"
    by (cases "encodeNames (tostr (FType f)) (tostr (FType f)) (Names f) v")
  then have "encodeNames (tostr (FType f)) (tostr (FType f)) (Names f) (w @ v) = (w @ v', e)"
    by (simp add: encodeNames_append)
  with r Cons.IH [of v'] show ?case
    by (cases e) simp_all
qed

lemma writeEncodeFunc_append:
  "writeEncodeFunc unexp exp flds w
     = (w @ fst (writeEncodeFunc unexp exp flds []), snd (writeEncodeFunc unexp exp flds []))"
  using encodeFields_append [of flds w "''func (o *'' @ exp @ '') Encode() []byte {'' @ NL
                @ TAB @ ''var r '' @ unexp @ NL
                @ TAB @ ''b := make([]byte, unsafe.Sizeof(r), int(unsafe.Sizeof(r)))'' @ NL"]
  by (simp add: writeEncodeFunc_def split: prod.splits option.splits)

lemma writeDecodeFunc_append:
  "writeDecodeFunc unexp exp flds w
     = (w @ fst (writeDecodeFunc unexp exp flds []), None)"
  by (simp add: writeDecodeFunc_def)

lemma accessorNames_append:
  "accessorNames name ty ns (w @ v)
     = (w @ fst (accessorNames name ty ns v), snd (accessorNames name ty ns v))"
  by (induction ns arbitrary: v ty) simp_all

lemma writeAccessorFuncs_append':
  "writeAccessorFuncs name flds (w @ v)
     = (w @ fst (writeAccessorFuncs name flds v), snd (writeAccessorFuncs name flds v))"
proof (induction flds arbitrary: v)
  case Nil
  then show ?case by simp
next
  case (Cons f flds)
  obtain v' e where r: "accessorNames name (tostr (FType f)) (Names f) v = (v', e)"
    by (cases "accessorNames name (tostr (FType f)) (Names f) v")
  then have "accessorNames name (tostr (FType f)) (Names f) (w @ v) = (w @ v', e)"
    by (simp add: accessorNames_append)
  with r Cons.IH [of v'] show ?case
    by (cases e) simp_all
qed

lemma writeAccessorFuncs_append:
  "writeAccessorFuncs name flds w
     = (w @ fst (writeAccessorFuncs name flds []), snd (writeAccessorFuncs name flds []))"
  using writeAccessorFuncs_append' [of name flds w "[]"] by simp

lemma emitAll_ok:
  assumes "snd (emitAll g unexp exp s) = None"
  shows "emitAll g unexp exp s =
           (g\<lparr>g_w := g_w g @ beginMarker @ NL @ NL @ boilerplate
                 @ fst (writeExportedType exp s [])
                 @ fst (writeEncodeFunc unexp exp s [])
                 @ fst (writeDecodeFunc unexp exp s [])
                 @ fst (writeAccessorFuncs unexp s [])
                 @ endMarker @ NL @ NL\<rparr>, None)"
proof -
  let ?w0 = "g_w g @ beginMarker @ NL @ NL @ boilerplate"
  let ?w1 = "?w0 @ fst (writeExportedType exp s [])"
  let ?w2 = "?w1 @ fst (writeEncodeFunc unexp exp s [])"
  let ?w3 = "?w2 @ fst (writeDecodeFunc unexp exp s [])"
  have 1: "writeExportedType exp s ?w0 = (?w1, snd (writeExportedType exp s []))"
    by (rule writeExportedType_append)
  have 2: "writeEncodeFunc unexp exp s ?w1 = (?w2, snd (writeEncodeFunc unexp exp s []))"
    by (rule writeEncodeFunc_append)
  have 3: "writeDecodeFunc unexp exp s ?w2 = (?w3, None)"
    by (rule writeDecodeFunc_append)
  have 4: "writeAccessorFuncs unexp s ?w3
             = (?w3 @ fst (writeAccessorFuncs unexp s []), snd (writeAccessorFuncs unexp s []))"
    by (rule writeAccessorFuncs_append)
  have e: "emitAll g unexp exp s =
     (case (?w1, snd (writeExportedType exp s [])) of
        (w1, Some e) \<Rightarrow> (g\<lparr>g_w := w1\<rparr>, Some GenerateExportedType)
      | (w1, None) \<Rightarrow>
          (case (?w2, snd (writeEncodeFunc unexp exp s [])) of
             (w2, Some e) \<Rightarrow> (g\<lparr>g_w := w2\<rparr>, Some GenerateEncodeFunc)
           | (w2, None) \<Rightarrow>
               (case (?w3 @ fst (writeAccessorFuncs unexp s []), snd (writeAccessorFuncs unexp s [])) of
                       (w4, Some e) \<Rightarrow> (g\<lparr>g_w := w4\<rparr>, Some GenerateAccessorFuncs)
                     | (w4, None) \<Rightarrow> (g\<lparr>g_w := w4 @ endMarker @ NL @ NL\<rparr>, None))))"
    unfolding emitAll_def 1 by (simp only: 2 3 4 prod.case option.case split: option.splits)
  from assms show ?thesis
    unfolding e by (auto split: option.splits)
qed

lemma Visit_ok:
  assumes "g_err g = None" and "g_err (Visit g t) = None"
  shows "Visit g t = g\<lparr>g_w := g_w g @ (if isEligible t then block t else [])\<rparr>"
proof (cases "isEligible t")
  case False
  then show ?thesis by (simp add: Visit_ineligible)
next
  case True
  then obtain s where s: "SType t = StructType s" and r: "isRawStructType s"
    by (auto simp: isEligible_def split: type_expr.splits)
  from assms have v: "snd (visitTypeSpec g t) = None"
    by (auto simp: Visit_def split: prod.splits option.splits)
  then obtain c cs where n: "Name t = c # cs" and u: "\<not> unicode_IsUpper (of_char c)"
    using s r by (auto simp: visitTypeSpec_def split: list.splits if_splits)
  from v s r n u have e: "snd (emitAll g (Name t) (tocamelcase (Name t)) s) = None"
    by (simp add: visitTypeSpec_def)
  have "visitTypeSpec g t = emitAll g (Name t) (tocamelcase (Name t)) s"
    using s r n u by (simp add: visitTypeSpec_def)
  with emitAll_ok [OF e] have "visitTypeSpec g t = (g\<lparr>g_w := g_w g @ block t\<rparr>, None)"
    by (simp add: block_def s codeOf_def)
  with assms(1) True show ?thesis by (simp add: Visit_def)
qed

lemma Walk_ok:
  "g_err (Walk g ts) = None \<Longrightarrow>
     Walk g ts = g\<lparr>g_w := g_w g @ concat (map block (filter isEligible ts))\<rparr>"
proof (induction ts arbitrary: g)
  case Nil
  then show ?case by (simp add: Walk_Nil)
next
  case (Cons t ts)
  from Cons.prems have w: "g_err (Walk (Visit g t) ts) = None"
    by (simp add: Walk_Cons)
  have v: "g_err (Visit g t) = None"
  proof (cases "g_err (Visit g t)")
    case (Some e)
    then have "Walk (Visit g t) ts = Visit g t" by (rule Walk_failed)
    with w Some show ?thesis by simp
  qed simp
  have g: "g_err g = None"
  proof (cases "g_err g")
    case (Some e)
    then have "g_err (Visit g t) = Some e" by (rule Visit_keeps_error)
    with v show ?thesis by simp
  qed simp
  from Cons.IH [OF w] Visit_ok [OF g v] show ?case
    by (simp add: Walk_Cons)
qed

lemma process_ok:
  assumes "fs path = Some f"
      and "parse (trimRight (stripGenerated (content f))) = Inr specs"
      and "g_err (Walk \<lparr>g_w = trimRight (stripGenerated (content f)) @ NL @ NL, g_err = None\<rparr> specs)
             = None"
  shows "process parse path fs =
           (None,
            fst (WriteFile path (trimRight (stripGenerated (content f)) @ NL @ NL
                                   @ concat (map block (filter isEligible specs))) fs),
            [''OK '' @ path])"
proof -
  from Walk_ok [OF assms(3)]
  have "g_w (Walk \<lparr>g_w = trimRight (stripGenerated (content f)) @ NL @ NL, g_err = None\<rparr> specs)
          = trimRight (stripGenerated (content f)) @ NL @ NL
              @ concat (map block (filter isEligible specs))"
    by simp
  with assms show ?thesis
    by (simp add: process_def ReadFile_def Let_def)
qed

lemma visit_empty_ok:
  "\<not> unicode_IsUpper (of_char c) \<Longrightarrow>
     snd (visitTypeSpec g (TypeSpec (c # cs) (StructType []))) = None"
  by (simp add: visitTypeSpec_def emitAll_def writeExportedType_def writeEncodeFunc_def
      writeDecodeFunc_def del: tocamelcase.simps)

lemma visit_point_ok:
  "snd (visitTypeSpec g (TypeSpec ''point'' (StructType pointFields))) = None"
  by (simp add: visitTypeSpec_def emitAll_def writeExportedType_def writeEncodeFunc_def
      writeDecodeFunc_def pointFields_def externalType_def signedTypes_def unsignedTypes_def
      castTypes_def unicode_IsUpper_def Let_def del: tocamelcase.simps)

subsection \<open>Names that do not start with an ASCII character\<close>

text \<open>
  The test for an exported name and the capitalisation read the first byte of the name,
  not its first character. The byte C3, with which the UTF-8 encoding of the small e
  with acute accent starts, is a capital in Latin-1: a name starting with that letter
  counts as exported, and \<^verbatim>\<open>tocamelcase\<close> re-encodes the byte alone. The byte E1, with
  which three-byte characters start, is a small letter in Latin-1: no name starting
  with it counts as exported.
\<close>

lemma first_byte_decides:
  "unicode_IsUpper (of_char (CHR 0xC3))
   \<and> tocamelcase [CHR 0xC3, CHR 0xA9, CHR ''a''] = [CHR 0xC3, CHR 0x83, CHR 0xA9, CHR ''a'']
   \<and> \<not> unicode_IsUpper (of_char (CHR 0xE1))"
  by (simp add: unicode_IsUpper_def unicode_ToUpper_def string_of_rune_def char_of_eq_iff)

lemma strip_srcUpper: "trimRight (stripGenerated srcUpper) = srcUpper"
  by (simp add: srcUpper_def nameUpperAb_def stripGenerated.simps trimRight_def cutset_def
      beginMarker_def foldEq_def)

lemma parse_srcUpper:
  "parseKnown srcUpper = Inr [TypeSpec nameUpperAb (StructType [Field [''n''] (Ident ''int32'')])]"
  by (simp add: parseKnown_def goSources_def srcPlain_def srcBad_def srcPoint_def srcTwo_def
      srcMarked_def srcUpper_def nameUpperAb_def beginMarker_def)

lemma visit_upper_ok:
  "snd (visitTypeSpec g (TypeSpec nameUpperAb (StructType [Field [''n''] (Ident ''int32'')]))) = None"
  by (simp add: visitTypeSpec_def emitAll_def writeExportedType_def writeEncodeFunc_def
      writeDecodeFunc_def nameUpperAb_def externalType_def signedTypes_def unsignedTypes_def
      castTypes_def unicode_IsUpper_def Let_def del: tocamelcase.simps)

text \<open>
  C4, at a file that declares a struct with an \<^verbatim>\<open>int32\<close> field and the name made of the
  capital A with ring below and b, which starts with an uppercase letter and is exported
  in Go. The struct is raw; \<^verbatim>\<open>visitTypeSpec\<close> returns no error, since the first byte of the
  name is not a capital in Latin-1; and \<^verbatim>\<open>process\<close> returns no error, writes the file with a
  block for the struct and logs the OK line.
\<close>

theorem exported_name_not_rejected:
  "isRawStructType [Field [''n''] (Ident ''int32'')]
   \<and> snd (visitTypeSpec \<lparr>g_w = [], g_err = None\<rparr>
            (TypeSpec nameUpperAb (StructType [Field [''n''] (Ident ''int32'')]))) = None
   \<and> tocamelcase nameUpperAb = [CHR 0xC3, CHR 0x81, CHR 0xB8, CHR 0x80, CHR ''b'']
   \<and> process parseKnown ''a.go'' [''a.go'' \<mapsto> upperFile]
       = (None,
          [''a.go'' \<mapsto>
             \<lparr>content = srcUpper @ NL @ NL
                  @ block (TypeSpec nameUpperAb (StructType [Field [''n''] (Ident ''int32'')])),
              writable = True\<rparr>],
          [''OK a.go''])"
proof -
  let ?t = "TypeSpec nameUpperAb (StructType [Field [''n''] (Ident ''int32'')])"
  have r: "isRawStructType [Field [''n''] (Ident ''int32'')]"
    by (simp add: signedTypes_def)
  have c: "tocamelcase nameUpperAb = [CHR 0xC3, CHR 0x81, CHR 0xB8, CHR 0x80, CHR ''b'']"
    by (simp add: nameUpperAb_def unicode_ToUpper_def string_of_rune_def char_of_eq_iff)
  have h1: "[''a.go'' \<mapsto> upperFile] ''a.go'' = Some upperFile" by simp
  have h2: "parseKnown (trimRight (stripGenerated (content upperFile))) = Inr [?t]"
    by (simp add: upperFile_def strip_srcUpper parse_srcUpper)
  have h3: "g_err (Walk \<lparr>g_w = trimRight (stripGenerated (content upperFile)) @ NL @ NL,
                           g_err = None\<rparr> [?t]) = None"
    by (simp add: Walk_Nil Walk_Cons Visit_no_error visit_upper_ok)
  from process_ok [where fs = "[''a.go'' \<mapsto> upperFile]" and path = "''a.go''"
      and parse = parseKnown, OF h1 h2 h3]
  have "process parseKnown ''a.go'' [''a.go'' \<mapsto> upperFile]
       = (None,
          [''a.go'' \<mapsto> \<lparr>content = srcUpper @ NL @ NL @ block ?t, writable = True\<rparr>],
          [''OK a.go''])"
    by (simp add: upperFile_def strip_srcUpper WriteFile_def isEligible_def signedTypes_def Let_def)
  with r c visit_upper_ok [of "\<lparr>g_w = [], g_err = None\<rparr>"] show ?thesis
    by (simp only: simp_thms)
qed

subsection \<open>Markers in the generated text\<close>

lemma foldEq_slash: "foldEq CHR ''/'' c \<longleftrightarrow> c = CHR ''/''"
  by (simp add: foldEq_def)

lemma matchFold_begin_slash: "matchFold beginMarker (c # cs) \<Longrightarrow> c = CHR ''/''"
  by (simp add: beginMarker_def foldEq_slash split: if_splits)

lemma matchFold_end_slash: "matchFold endMarker (c # cs) \<Longrightarrow> c = CHR ''/''"
  by (simp add: endMarker_def foldEq_slash split: if_splits)

lemma matchFold_self: "\<forall>x \<in> set p. foldEq x x \<Longrightarrow> matchFold p (p @ v)"
  by (induction p) simp_all

lemma matchFold_begin_self: "matchFold beginMarker (beginMarker @ v)"
  by (rule matchFold_self) (simp add: foldEq_def)

lemma matchFold_end_self: "matchFold endMarker (endMarker @ v)"
  by (rule matchFold_self) (simp add: foldEq_def)

text \<open>A match that would have to read a character no pattern character matches lies before it.\<close>

lemma matchFold_cut:
  "matchFold p (s @ c # v) \<Longrightarrow> \<forall>x \<in> set p. \<not> foldEq x c \<Longrightarrow> matchFold p s"
proof (induction p arbitrary: s)
  case Nil
  then show ?case by simp
next
  case (Cons x xs)
  show ?case
  proof (cases s)
    case Nil
    with Cons.prems show ?thesis by simp
  next
    case (Cons a s')
    with Cons.prems Cons.IH [of s'] show ?thesis
      by (simp split: if_splits)
  qed
qed

lemma begin_no_newline: "\<forall>x \<in> set beginMarker. \<not> foldEq x CHR ''\<newline>''"
  by (simp add: beginMarker_def foldEq_def)

lemma afterEnd_skip:
  "CHR ''/'' \<notin> set u \<Longrightarrow> afterEnd (u @ v) = afterEnd v"
proof (induction u)
  case Nil
  then show ?case by simp
next
  case (Cons a u)
  then have "\<not> matchFold endMarker (a # u @ v)"
    using matchFold_end_slash by fastforce
  with Cons show ?case by simp
qed

lemma afterEnd_boilerplate: "afterEnd (NL @ boilerplate @ v) = afterEnd v"
  by (simp add: boilerplate_def endMarker_def foldEq_def)

lemma afterEnd_end: "afterEnd (endMarker @ v) = Some v"
proof -
  have "endMarker @ v = CHR ''/'' # (tl endMarker @ v)"
    by (simp add: endMarker_def)
  moreover have "afterEnd (CHR ''/'' # (tl endMarker @ v))
      = Some (drop (length endMarker) (CHR ''/'' # (tl endMarker @ v)))"
    using matchFold_end_self [of v] calculation by simp
  ultimately show ?thesis by (simp add: endMarker_def)
qed

lemma afterEnd_begin: "afterEnd (beginMarker @ NL @ v) = afterEnd v"
  by (simp add: beginMarker_def endMarker_def foldEq_def)

lemma afterEnd_suffix: "afterEnd (u @ v) = None \<Longrightarrow> afterEnd v = None"
  by (induction u) (simp_all split: if_splits)

lemma strip_plain_prefix:
  "\<not> containsFold beginMarker u \<Longrightarrow>
     stripGenerated (u @ NL @ v) = u @ NL @ stripGenerated v"
proof (induction u)
  case Nil
  have "\<not> matchFold beginMarker (CHR ''\<newline>'' # v)"
    using matchFold_begin_slash by fastforce
  then show ?case by (simp add: stripGenerated.simps)
next
  case (Cons a u)
  from Cons.prems have m: "\<not> matchFold beginMarker (a # u)" and c: "\<not> containsFold beginMarker u"
    by simp_all
  have "\<not> matchFold beginMarker ((a # u) @ CHR ''\<newline>'' # v)"
    using m matchFold_cut [OF _ begin_no_newline] by blast
  with Cons.IH [OF c] show ?case by (simp add: stripGenerated.simps)
qed

lemma strip_match:
  assumes "matchFold beginMarker s" and "drop (length beginMarker) s = d # ds"
      and "afterEnd ds = Some rest"
  shows "stripGenerated s = stripGenerated rest"
proof (cases s)
  case Nil
  with assms(2) show ?thesis by simp
next
  case (Cons c cs)
  with assms show ?thesis by (simp add: stripGenerated.simps)
qed

lemma strip_newlines: "stripGenerated (NL @ NL @ v) = NL @ NL @ stripGenerated v"
  using strip_plain_prefix [of "[]" "NL @ v"] strip_plain_prefix [of "[]" v] by simp

lemma strip_block:
  assumes "CHR ''/'' \<notin> set code"
  shows "stripGenerated (beginMarker @ NL @ NL @ boilerplate @ code @ endMarker @ NL @ NL @ v)
           = NL @ NL @ stripGenerated v"
proof -
  let ?inner = "NL @ boilerplate @ code @ endMarker @ NL @ NL @ v"
  have m: "matchFold beginMarker (beginMarker @ NL @ ?inner)"
    by (rule matchFold_begin_self)
  have d: "drop (length beginMarker) (beginMarker @ NL @ ?inner) = CHR ''\<newline>'' # ?inner"
    by simp
  have a: "afterEnd ?inner = Some (NL @ NL @ v)"
    using afterEnd_boilerplate [of "code @ endMarker @ NL @ NL @ v"]
      afterEnd_skip [OF assms, of "endMarker @ NL @ NL @ v"] afterEnd_end [of "NL @ NL @ v"]
    by simp
  from strip_match [OF m d a] show ?thesis
    by (simp only: strip_newlines)
qed

text \<open>Without an end marker nothing is stripped.\<close>

lemma strip_without_end: "afterEnd s = None \<Longrightarrow> stripGenerated s = s"
proof (induction s)
  case Nil
  then show ?case by (simp add: stripGenerated.simps)
next
  case (Cons c cs)
  from Cons.prems have n: "afterEnd cs = None"
    by (simp split: if_splits)
  have "\<And>d ds. drop (length beginMarker) (c # cs) = d # ds \<Longrightarrow> afterEnd ds = None"
  proof -
    fix d ds
    assume "drop (length beginMarker) (c # cs) = d # ds"
    then have "c # cs = (take (length beginMarker) (c # cs) @ [d]) @ ds"
      by (metis append_take_drop_id append.assoc append_Cons append_Nil)
    with Cons.prems show "afterEnd ds = None"
      using afterEnd_suffix by metis
  qed
  then show ?case
    using Cons.IH [OF n]
    by (auto simp: stripGenerated.simps split: list.splits option.splits)
qed

lemma trimRight_idem_append:
  assumes "set ws \<subseteq> set cutset"
  shows "trimRight (trimRight x @ ws) = trimRight x"
proof -
  have "dropWhile (\<lambda>c. c \<in> set cutset) (rev ws @ dropWhile (\<lambda>c. c \<in> set cutset) (rev x))
          = dropWhile (\<lambda>c. c \<in> set cutset) (dropWhile (\<lambda>c. c \<in> set cutset) (rev x))"
    using assms by (intro dropWhile_append2) auto
  then show ?thesis
    by (simp add: trimRight_def)
qed

subsection \<open>The emitted code contains no slash\<close>

lemma of_char_slash: "c \<noteq> CHR ''/'' \<Longrightarrow> (of_char c :: nat) \<noteq> 47"
proof
  assume "c \<noteq> CHR ''/''" and "(of_char c :: nat) = 47"
  then have "(of_char c :: nat) = of_char CHR ''/''" by simp
  then have "c = CHR ''/''" by (simp only: of_char_eq_iff)
  with \<open>c \<noteq> CHR ''/''\<close> show False by simp
qed

lemma of_char_less: "(of_char c :: nat) < 256"
proof -
  have "(of_char c :: nat) mod 256 = of_char c" by simp
  then show ?thesis
    by (metis mod_less_divisor zero_less_numeral)
qed

lemma char_of_not_slash:
  assumes "(n::nat) mod 256 \<noteq> 47"
  shows "char_of n \<noteq> CHR ''/''"
proof
  assume "char_of n = CHR ''/''"
  then have "(of_char (char_of n) :: nat) = of_char CHR ''/''" by simp
  then have "n mod 256 = 47" by (simp only: of_char_of) simp
  with assms show False by simp
qed

lemma string_of_rune_no_slash:
  assumes "r < 1024" and "r \<noteq> 47"
  shows "CHR ''/'' \<notin> set (string_of_rune r)"
proof (cases "r < 128")
  case True
  with assms have "r mod 256 \<noteq> 47" by simp
  from char_of_not_slash [OF this] True show ?thesis
    by (auto simp: string_of_rune_def)
next
  case False
  from assms have "r div 64 < 16" by simp
  then have "(192 + r div 64) mod 256 = 192 + r div 64" by simp
  then have "(192 + r div 64) mod 256 \<noteq> 47" by simp
  moreover have "r mod 64 < 64" by simp
  then have "(128 + r mod 64) mod 256 = 128 + r mod 64" by simp
  then have "(128 + r mod 64) mod 256 \<noteq> 47" by simp
  ultimately show ?thesis
    using False char_of_not_slash [of "192 + r div 64"] char_of_not_slash [of "128 + r mod 64"]
    by (auto simp: string_of_rune_def)
qed

lemma unicode_ToUpper_bound:
  "k < 256 \<Longrightarrow> k \<noteq> 47 \<Longrightarrow> unicode_ToUpper k < 1024 \<and> unicode_ToUpper k \<noteq> 47"
  by (auto simp: unicode_ToUpper_def)

lemma string_of_rune_plain:
  assumes "k < 256" and "k \<noteq> 47"
  shows "CHR ''/'' \<notin> set (string_of_rune (unicode_ToUpper k))"
  using unicode_ToUpper_bound [OF assms] string_of_rune_no_slash by blast

lemma tocamelcase_plain: "plainName n \<Longrightarrow> CHR ''/'' \<notin> set (tocamelcase n)"
proof (cases n)
  case Nil
  then show ?thesis by simp
next
  case (Cons c cs)
  assume "plainName n"
  with Cons have c: "c \<noteq> CHR ''/''" and cs: "CHR ''/'' \<notin> set cs"
    by (auto simp: plainName_def)
  from string_of_rune_plain [OF of_char_less of_char_slash [OF c]] cs Cons
  show ?thesis by simp
qed

lemma externalType_plain: "externalType t = Some e \<Longrightarrow> CHR ''/'' \<notin> set e"
  by (auto simp: externalType_def split: if_splits)

lemma castTypes_plain: "t \<in> set castTypes \<Longrightarrow> CHR ''/'' \<notin> set t"
  by (auto simp: castTypes_def signedTypes_def unsignedTypes_def)

lemma exportedFields_plain:
  "CHR ''/'' \<notin> set w \<Longrightarrow> list_all (\<lambda>f. list_all plainName (Names f)) flds \<Longrightarrow>
     CHR ''/'' \<notin> set (fst (exportedFields flds w))"
proof (induction flds arbitrary: w)
  case Nil
  then show ?case by simp
next
  case (Cons f flds)
  show ?case
  proof (cases "externalType (tostr (FType f))")
    case None
    with Cons.prems show ?thesis by simp
  next
    case (Some e)
    have "CHR ''/'' \<notin> set (w @ concat (map (\<lambda>n. TAB @ tocamelcase n @ '' '' @ e @ NL) (Names f)))"
      using Cons.prems externalType_plain [OF Some]
      by (auto simp: list_all_iff dest: tocamelcase_plain)
    from Cons.IH [OF this] Cons.prems(2) Some show ?thesis by simp
  qed
qed

lemma encodeNames_plain:
  "CHR ''/'' \<notin> set w \<Longrightarrow> list_all plainName ns \<Longrightarrow>
     CHR ''/'' \<notin> set (fst (encodeNames ft ty ns w))"
proof (induction ns arbitrary: w ty)
  case Nil
  then show ?case by simp
next
  case (Cons n ns)
  from Cons.prems have n: "CHR ''/'' \<notin> set n" "CHR ''/'' \<notin> set (tocamelcase n)"
    and ns: "list_all plainName ns"
    by (simp_all add: tocamelcase_plain) (simp add: plainName_def)
  have g: "\<And>w' ty'. CHR ''/'' \<notin> set w' \<Longrightarrow> CHR ''/'' \<notin> set (fst (encodeNames ft ty' ns w'))"
    using Cons.IH ns by blast
  have t: "ty \<in> set castTypes \<Longrightarrow> CHR ''/'' \<notin> set ty"
    by (rule castTypes_plain)
  show ?case
    using Cons.prems(1) n by (simp add: g t)
qed

lemma encodeFields_plain:
  "CHR ''/'' \<notin> set w \<Longrightarrow> list_all (\<lambda>f. list_all plainName (Names f)) flds \<Longrightarrow>
     CHR ''/'' \<notin> set (fst (encodeFields flds w))"
proof (induction flds arbitrary: w)
  case Nil
  then show ?case by simp
next
  case (Cons f flds)
  obtain w' e where r: "encodeNames (tostr (FType f)) (tostr (FType f)) (Names f) w = (w', e)"
    by (cases "encodeNames (tostr (FType f)) (tostr (FType f)) (Names f) w")
  from Cons.prems encodeNames_plain [of w "Names f" "tostr (FType f)" "tostr (FType f)"] r
  have w': "CHR ''/'' \<notin> set w'" by simp
  from Cons.IH [OF w'] Cons.prems(2) r w' show ?case
    by (cases e) simp_all
qed

lemma accessorNames_plain:
  "CHR ''/'' \<notin> set w \<Longrightarrow> CHR ''/'' \<notin> set name \<Longrightarrow> list_all plainName ns \<Longrightarrow>
     CHR ''/'' \<notin> set (fst (accessorNames name ty ns w))"
proof (induction ns arbitrary: w ty)
  case Nil
  then show ?case by simp
next
  case (Cons n ns)
  from Cons.prems have n: "CHR ''/'' \<notin> set n" "CHR ''/'' \<notin> set (tocamelcase n)"
    and ns: "list_all plainName ns"
    by (simp_all add: tocamelcase_plain) (simp add: plainName_def)
  have g: "\<And>w' ty'. CHR ''/'' \<notin> set w' \<Longrightarrow>
             CHR ''/'' \<notin> set (fst (accessorNames name ty' ns w'))"
    using Cons.IH Cons.prems(2) ns by blast
  show ?case
    using Cons.prems(1,2) n by (simp add: g)
qed

lemma writeAccessorFuncs_plain:
  "CHR ''/'' \<notin> set w \<Longrightarrow> CHR ''/'' \<notin> set name \<Longrightarrow>
   list_all (\<lambda>f. list_all plainName (Names f)) flds \<Longrightarrow>
     CHR ''/'' \<notin> set (fst (writeAccessorFuncs name flds w))"
proof (induction flds arbitrary: w)
  case Nil
  then show ?case by simp
next
  case (Cons f flds)
  obtain w' e where r: "accessorNames name (tostr (FType f)) (Names f) w = (w', e)"
    by (cases "accessorNames name (tostr (FType f)) (Names f) w")
  from Cons.prems accessorNames_plain [of w name "Names f" "tostr (FType f)"] r
  have w': "CHR ''/'' \<notin> set w'" by simp
  from Cons.IH [OF w' Cons.prems(2)] Cons.prems(3) r w' show ?case
    by (cases e) simp_all
qed

lemma decodeLines_plain:
  "list_all (\<lambda>f. list_all plainName (Names f)) flds \<Longrightarrow> CHR ''/'' \<notin> set (decodeLines flds)"
  by (auto simp: decodeLines_def list_all_iff dest: tocamelcase_plain)

lemma writeExportedType_plain:
  assumes "CHR ''/'' \<notin> set w" and "CHR ''/'' \<notin> set name"
      and "list_all (\<lambda>f. list_all plainName (Names f)) flds"
  shows "CHR ''/'' \<notin> set (fst (writeExportedType name flds w))"
proof -
  let ?w0 = "w @ ''type '' @ name @ '' struct {'' @ NL"
  from assms(1,2) have p: "CHR ''/'' \<notin> set ?w0" by simp
  obtain w1 e1 where r: "exportedFields flds ?w0 = (w1, e1)"
    by (cases "exportedFields flds ?w0")
  from exportedFields_plain [OF p assms(3)] r have "CHR ''/'' \<notin> set w1" by simp
  then show ?thesis
    unfolding writeExportedType_def r by (cases e1) simp_all
qed

lemma writeEncodeFunc_plain:
  assumes "CHR ''/'' \<notin> set w" and "CHR ''/'' \<notin> set unexp" and "CHR ''/'' \<notin> set exp"
      and "list_all (\<lambda>f. list_all plainName (Names f)) flds"
  shows "CHR ''/'' \<notin> set (fst (writeEncodeFunc unexp exp flds w))"
proof -
  let ?w0 = "w @ ''func (o *'' @ exp @ '') Encode() []byte {'' @ NL
                @ TAB @ ''var r '' @ unexp @ NL
                @ TAB @ ''b := make([]byte, unsafe.Sizeof(r), int(unsafe.Sizeof(r)))'' @ NL"
  from assms(1,2,3) have p: "CHR ''/'' \<notin> set ?w0" by simp
  obtain w1 e1 where r: "encodeFields flds ?w0 = (w1, e1)"
    by (cases "encodeFields flds ?w0")
  from encodeFields_plain [OF p assms(4)] r have "CHR ''/'' \<notin> set w1" by simp
  then show ?thesis
    unfolding writeEncodeFunc_def r by (cases e1) simp_all
qed

lemma codeOf_plain:
  assumes "plainName name" and "list_all (\<lambda>f. list_all plainName (Names f)) flds"
  shows "CHR ''/'' \<notin> set (codeOf name flds)"
proof -
  from assms(1) have n: "CHR ''/'' \<notin> set name" "CHR ''/'' \<notin> set (tocamelcase name)"
    by (simp_all add: tocamelcase_plain) (simp add: plainName_def)
  have e: "CHR ''/'' \<notin> set ([] :: string)" by simp
  have 1: "CHR ''/'' \<notin> set (fst (writeExportedType (tocamelcase name) flds []))"
    by (rule writeExportedType_plain [OF e n(2) assms(2)])
  have 2: "CHR ''/'' \<notin> set (fst (writeEncodeFunc name (tocamelcase name) flds []))"
    by (rule writeEncodeFunc_plain [OF e n(1) n(2) assms(2)])
  have 3: "CHR ''/'' \<notin> set (fst (writeDecodeFunc name (tocamelcase name) flds []))"
    using decodeLines_plain [OF assms(2)] n by (simp add: writeDecodeFunc_def)
  have 4: "CHR ''/'' \<notin> set (fst (writeAccessorFuncs name flds []))"
    by (rule writeAccessorFuncs_plain [OF e n(1) assms(2)])
  from 1 2 3 4 show ?thesis by (simp add: codeOf_def)
qed

lemma block_eligible:
  assumes "isEligible t" and "identsOK t"
  obtains code where "CHR ''/'' \<notin> set code"
    and "block t = beginMarker @ NL @ NL @ boilerplate @ code @ endMarker @ NL @ NL"
proof -
  from assms(1) obtain s where s: "SType t = StructType s"
    by (auto simp: isEligible_def split: type_expr.splits)
  with assms(2) have "CHR ''/'' \<notin> set (codeOf (Name t) s)"
    by (simp add: identsOK_def codeOf_plain)
  moreover have "block t = beginMarker @ NL @ NL @ boilerplate @ codeOf (Name t) s @ endMarker @ NL @ NL"
    by (simp add: block_def s)
  ultimately show ?thesis by (rule that)
qed

subsection \<open>Stripping the blocks of an earlier run\<close>

lemma strip_blocks:
  "list_all (\<lambda>t. isEligible t \<and> identsOK t) ts \<Longrightarrow>
     stripGenerated (concat (map block ts)) = concat (map (\<lambda>t. NL @ NL) ts)"
proof (induction ts)
  case Nil
  then show ?case by (simp add: stripGenerated.simps)
next
  case (Cons t ts)
  then have e: "isEligible t" and i: "identsOK t"
    and r: "list_all (\<lambda>t. isEligible t \<and> identsOK t) ts"
    by simp_all
  from block_eligible [OF e i] obtain code where c: "CHR ''/'' \<notin> set code"
    and b: "block t = beginMarker @ NL @ NL @ boilerplate @ code @ endMarker @ NL @ NL"
    by blast
  have "stripGenerated (block t @ concat (map block ts))
          = NL @ NL @ stripGenerated (concat (map block ts))"
    using strip_block [OF c, of "concat (map block ts)"] by (simp add: b)
  with Cons.IH [OF r] show ?case by simp
qed

lemma strip_output:
  assumes "\<not> containsFold beginMarker b" and "list_all (\<lambda>t. isEligible t \<and> identsOK t) ts"
  shows "stripGenerated (b @ NL @ NL @ concat (map block ts))
           = b @ NL @ NL @ concat (map (\<lambda>t. NL @ NL) ts)"
proof -
  have "stripGenerated (b @ NL @ NL @ concat (map block ts))
          = b @ NL @ stripGenerated (NL @ concat (map block ts))"
    by (rule strip_plain_prefix [OF assms(1)])
  also have "stripGenerated (NL @ concat (map block ts)) = NL @ stripGenerated (concat (map block ts))"
    using strip_plain_prefix [of "[]" "concat (map block ts)"] by simp
  finally show ?thesis by (simp only: strip_blocks [OF assms(2)])
qed

lemma trim_output:
  "trimRight (trimRight x @ NL @ NL @ concat (map (\<lambda>t. NL @ NL) ts)) = trimRight x"
proof -
  have "set (NL @ NL @ concat (map (\<lambda>t. NL @ NL) ts)) \<subseteq> set cutset"
    by (induction ts) (simp_all add: cutset_def)
  then show ?thesis by (rule trimRight_idem_append)
qed

lemma old_blocks_stripped:
  assumes "\<not> containsFold beginMarker (trimRight h)"
      and "list_all (\<lambda>t. isEligible t \<and> identsOK t) old"
  shows "trimRight (stripGenerated (trimRight h @ NL @ NL @ concat (map block old))) = trimRight h"
  using strip_output [OF assms] by (simp only: trim_output)

lemma restrip_output:
  assumes "\<not> containsFold beginMarker (trimRight x)" and "list_all identsOK ts"
  shows "trimRight (stripGenerated (trimRight x @ NL @ NL @ concat (map block (filter isEligible ts))))
           = trimRight x"
proof -
  from assms(2) have "list_all (\<lambda>t. isEligible t \<and> identsOK t) (filter isEligible ts)"
    by (induction ts) simp_all
  with assms(1) show ?thesis by (rule old_blocks_stripped)
qed

subsection \<open>One block for each eligible declaration\<close>

lemma count_skip: "CHR ''/'' \<notin> set u \<Longrightarrow> countFold beginMarker (u @ v) = countFold beginMarker v"
proof (induction u)
  case Nil
  then show ?case by simp
next
  case (Cons a u)
  then have "\<not> matchFold beginMarker (a # u @ v)"
    using matchFold_begin_slash by fastforce
  with Cons show ?case by simp
qed

lemma count_plain_prefix:
  "\<not> containsFold beginMarker u \<Longrightarrow>
     countFold beginMarker (u @ NL @ v) = countFold beginMarker v"
proof (induction u)
  case Nil
  have "\<not> matchFold beginMarker (CHR ''\<newline>'' # v)"
    using matchFold_begin_slash by fastforce
  then show ?case by simp
next
  case (Cons a u)
  from Cons.prems have m: "\<not> matchFold beginMarker (a # u)" and c: "\<not> containsFold beginMarker u"
    by simp_all
  have "\<not> matchFold beginMarker ((a # u) @ CHR ''\<newline>'' # v)"
    using m matchFold_cut [OF _ begin_no_newline] by blast
  with Cons.IH [OF c] show ?case by simp
qed

lemma count_begin: "countFold beginMarker (beginMarker @ NL @ v) = Suc (countFold beginMarker v)"
  by (simp add: beginMarker_def foldEq_def)

lemma count_boilerplate: "countFold beginMarker (NL @ boilerplate @ v) = countFold beginMarker v"
  by (simp add: beginMarker_def boilerplate_def foldEq_def)

lemma count_end: "countFold beginMarker (endMarker @ NL @ NL @ v) = countFold beginMarker v"
  by (simp add: beginMarker_def endMarker_def foldEq_def)

lemma count_blocks:
  "list_all (\<lambda>t. isEligible t \<and> identsOK t) ts \<Longrightarrow>
     countFold beginMarker (concat (map block ts)) = length ts"
proof (induction ts)
  case Nil
  then show ?case by simp
next
  case (Cons t ts)
  then have e: "isEligible t" and i: "identsOK t"
    and r: "list_all (\<lambda>t. isEligible t \<and> identsOK t) ts"
    by simp_all
  from block_eligible [OF e i] obtain code where c: "CHR ''/'' \<notin> set code"
    and b: "block t = beginMarker @ NL @ NL @ boilerplate @ code @ endMarker @ NL @ NL"
    by blast
  let ?v = "concat (map block ts)"
  have "countFold beginMarker (block t @ ?v)
          = countFold beginMarker (beginMarker @ NL @ (NL @ boilerplate @ (code @ (endMarker @ NL @ NL @ ?v))))"
    by (simp add: b)
  also have "\<dots> = Suc (countFold beginMarker ?v)"
    by (simp only: count_begin count_boilerplate count_skip [OF c] count_end)
  finally show ?case using Cons.IH [OF r] by simp
qed

lemma count_output:
  assumes "\<not> containsFold beginMarker b" and "list_all identsOK ts"
  shows "countFold beginMarker (b @ NL @ NL @ concat (map block (filter isEligible ts)))
           = length (filter isEligible ts)"
proof -
  from assms(2) have "list_all (\<lambda>t. isEligible t \<and> identsOK t) (filter isEligible ts)"
    by (induction ts) simp_all
  from count_blocks [OF this] count_plain_prefix [OF assms(1)]
    count_plain_prefix [of "[]" "concat (map block (filter isEligible ts))"]
  show ?thesis by simp
qed

lemma strip_regenFile: "trimRight (stripGenerated (content regenFile)) = srcTwo"
proof -
  have t: "trimRight srcTwo = srcTwo"
    by (simp add: srcTwo_def trimRight_def cutset_def)
  have "list_all (\<lambda>t. isEligible t \<and> identsOK t) [TypeSpec ''p'' (StructType [])]"
    by (simp add: isEligible_def identsOK_def plainName_def)
  from old_blocks_stripped [of srcTwo, OF _ this] plain_srcTwo show ?thesis
    by (simp add: t regenFile_def)
qed

lemma process_regenFile:
  "process parseKnown ''a.go'' [''a.go'' \<mapsto> regenFile]
     = (None,
        [''a.go'' \<mapsto> \<lparr>content = srcTwo @ NL @ NL @ block (TypeSpec ''p'' (StructType []))
                                    @ block (TypeSpec ''q'' (StructType [])), writable = True\<rparr>],
        [''OK a.go''])"
proof -
  have h1: "[''a.go'' \<mapsto> regenFile] ''a.go'' = Some regenFile" by simp
  have h2: "parseKnown (trimRight (stripGenerated (content regenFile)))
              = Inr [TypeSpec ''p'' (StructType []), TypeSpec ''q'' (StructType [])]"
    by (simp only: strip_regenFile parse_srcTwo)
  have h3: "g_err (Walk \<lparr>g_w = trimRight (stripGenerated (content regenFile)) @ NL @ NL, g_err = None\<rparr>
                    [TypeSpec ''p'' (StructType []), TypeSpec ''q'' (StructType [])]) = None"
    by (simp add: Walk_Nil Walk_Cons Visit_no_error visit_empty_ok unicode_IsUpper_def)
  from process_ok [where fs = "[''a.go'' \<mapsto> regenFile]" and path = "''a.go''" and parse = parseKnown,
      OF h1 h2 h3]
  have "process parseKnown ''a.go'' [''a.go'' \<mapsto> regenFile]
          = (None,
             fst (WriteFile ''a.go''
                    (srcTwo @ NL @ NL
                       @ concat (map block (filter isEligible
                           [TypeSpec ''p'' (StructType []), TypeSpec ''q'' (StructType [])])))
                    [''a.go'' \<mapsto> regenFile]),
             [''OK '' @ ''a.go''])"
    by (simp only: strip_regenFile)
  then show ?thesis
    by (simp add: regenFile_def WriteFile_def isEligible_def)
qed

text \<open>
  C2, as amended: after a successful run the file holds the stripped content, two
  newlines and then one block for each eligible declaration, in the order of the walk;
  every block starts with the begin marker and ends with the end marker. When the
  stripped content has no begin marker (and no name has a slash), the file has as many
  begin markers as there are eligible declarations. Nothing is left of the blocks of an
  earlier run: when the file held marker-free content, two newlines and blocks, the
  stripped content is that content.
\<close>

theorem one_block_per_declaration:
  assumes "fs path = Some f" and "writable f"
      and "parse (trimRight (stripGenerated (content f))) = Inr specs"
      and "process parse path fs = (None, fs', out)"
  shows "map_option content (fs' path)
           = Some (trimRight (stripGenerated (content f)) @ NL @ NL
                     @ concat (map block (filter isEligible specs)))
       \<and> (\<not> containsFold beginMarker (trimRight (stripGenerated (content f)))
              \<and> list_all identsOK specs
            \<longrightarrow> countFold beginMarker
                  (trimRight (stripGenerated (content f)) @ NL @ NL
                     @ concat (map block (filter isEligible specs)))
                = length (filter isEligible specs))
       \<and> (content f = trimRight h @ NL @ NL @ concat (map block old)
              \<and> \<not> containsFold beginMarker (trimRight h)
              \<and> list_all (\<lambda>t. isEligible t \<and> identsOK t) old
            \<longrightarrow> trimRight (stripGenerated (content f)) = trimRight h)"
proof -
  let ?b = "trimRight (stripGenerated (content f))"
  let ?g = "Walk \<lparr>g_w = ?b @ NL @ NL, g_err = None\<rparr> specs"
  from assms(1,3,4) have e: "g_err ?g = None"
    by (auto simp: process_def ReadFile_def Let_def split: option.splits)
  from process_ok [where fs = fs and path = path and parse = parse, OF assms(1,3) e] assms(4)
  have "fs' = fst (WriteFile path (?b @ NL @ NL @ concat (map block (filter isEligible specs))) fs)"
    by simp
  with assms(1,2) have "map_option content (fs' path)
           = Some (?b @ NL @ NL @ concat (map block (filter isEligible specs)))"
    by (simp add: WriteFile_def)
  moreover have "content f = trimRight h @ NL @ NL @ concat (map block old)
              \<and> \<not> containsFold beginMarker (trimRight h)
              \<and> list_all (\<lambda>t. isEligible t \<and> identsOK t) old
            \<longrightarrow> ?b = trimRight h"
    using old_blocks_stripped [of h old] by auto
  ultimately show ?thesis
    using count_output [of ?b specs] by blast
qed

theorem one_block_per_declaration_witness:
  "map_option content (fst (snd (process parseKnown ''a.go'' [''a.go'' \<mapsto> regenFile])) ''a.go'')
     = Some (srcTwo @ NL @ NL @ block (TypeSpec ''p'' (StructType []))
               @ block (TypeSpec ''q'' (StructType [])))
   \<and> countFold beginMarker
         (srcTwo @ NL @ NL @ block (TypeSpec ''p'' (StructType []))
            @ block (TypeSpec ''q'' (StructType []))) = length [''p'', ''q'']
   \<and> trimRight (stripGenerated (content regenFile)) = srcTwo"
proof -
  let ?specs = "[TypeSpec ''p'' (StructType []), TypeSpec ''q'' (StructType [])]"
  have h1: "[''a.go'' \<mapsto> regenFile] ''a.go'' = Some regenFile" by simp
  have h2: "writable regenFile" by (simp add: regenFile_def)
  have h3: "parseKnown (trimRight (stripGenerated (content regenFile))) = Inr ?specs"
    by (simp only: strip_regenFile parse_srcTwo)
  have h4: "process parseKnown ''a.go'' [''a.go'' \<mapsto> regenFile]
              = (None, fst (snd (process parseKnown ''a.go'' [''a.go'' \<mapsto> regenFile])),
                 snd (snd (process parseKnown ''a.go'' [''a.go'' \<mapsto> regenFile])))"
    by (simp add: process_regenFile)
  have h5: "\<not> containsFold beginMarker (trimRight (stripGenerated (content regenFile)))"
    by (simp only: strip_regenFile plain_srcTwo not_False_eq_True)
  have h6: "list_all identsOK ?specs"
    by (simp add: identsOK_def plainName_def)
  have t: "trimRight srcTwo = srcTwo"
    by (simp add: srcTwo_def trimRight_def cutset_def)
  have h7: "content regenFile
              = trimRight srcTwo @ NL @ NL @ concat (map block [TypeSpec ''p'' (StructType [])])"
    by (simp add: t regenFile_def)
  have h8: "\<not> containsFold beginMarker (trimRight srcTwo)"
    by (simp only: t plain_srcTwo not_False_eq_True)
  have h9: "list_all (\<lambda>t. isEligible t \<and> identsOK t) [TypeSpec ''p'' (StructType [])]"
    by (simp add: isEligible_def identsOK_def plainName_def)
  from one_block_per_declaration [where fs = "[''a.go'' \<mapsto> regenFile]" and path = "''a.go''"
      and parse = parseKnown and h = srcTwo and old = "[TypeSpec ''p'' (StructType [])]",
      OF h1 h2 h3 h4] h5 h6 h7 h8 h9
  have "map_option content (fst (snd (process parseKnown ''a.go'' [''a.go'' \<mapsto> regenFile])) ''a.go'')
          = Some (trimRight (stripGenerated (content regenFile)) @ NL @ NL
                    @ concat (map block (filter isEligible ?specs)))"
    and "countFold beginMarker
           (trimRight (stripGenerated (content regenFile)) @ NL @ NL
              @ concat (map block (filter isEligible ?specs)))
           = length (filter isEligible ?specs)"
    and "trimRight (stripGenerated (content regenFile)) = trimRight srcTwo"
    by blast+
  then show ?thesis
    by (simp add: strip_regenFile t isEligible_def)
qed

text \<open>
  C2 as the specification states it fails on that file, which had one block and to which
  a second eligible declaration was added: the file written has two begin markers, one
  for each declaration.
\<close>

theorem two_blocks_counterexample:
  "countFold beginMarker
     (content (the (fst (snd (process parseKnown ''a.go'' [''a.go'' \<mapsto> regenFile])) ''a.go''))) = 2"
proof -
  have "list_all identsOK [TypeSpec ''p'' (StructType []), TypeSpec ''q'' (StructType [])]"
    by (simp add: identsOK_def plainName_def)
  from count_output [OF plain_srcTwo this] show ?thesis
    by (simp add: process_regenFile isEligible_def)
qed

subsection \<open>Running the driver twice\<close>

text \<open>
  C1, as amended: when the stripped content of the file has no begin marker, in any
  letter case (and no name has a slash, as in every parsed Go file), running
  \<^verbatim>\<open>process\<close> on the files that a first run leaves returns the same result, leaves
  the same files and logs the same line as the first run.
\<close>

theorem second_run_same:
  assumes "fs path = Some f"
      and "\<not> containsFold beginMarker (trimRight (stripGenerated (content f)))"
      and "\<forall>specs. parse (trimRight (stripGenerated (content f))) = Inr specs
             \<longrightarrow> list_all identsOK specs"
  shows "process parse path (fst (snd (process parse path fs))) = process parse path fs"
proof -
  let ?b = "trimRight (stripGenerated (content f))"
  let ?g0 = "\<lparr>g_w = ?b @ NL @ NL, g_err = None\<rparr>"
  show ?thesis
  proof (cases "parse ?b")
    case (Inl e)
    with assms(1) have "process parse path fs = (Some e, fs, [])"
      by (simp add: process_def ReadFile_def)
    then show ?thesis by simp
  next
    case (Inr specs)
    with assms(3) have ids: "list_all identsOK specs" by blast
    show ?thesis
    proof (cases "g_err (Walk ?g0 specs)")
      case (Some e)
      from process_walk_error [where fs = fs and path = path and parse = parse, OF assms(1) Inr Some]
      show ?thesis by simp
    next
      case None
      let ?out = "?b @ NL @ NL @ concat (map block (filter isEligible specs))"
      from process_ok [where fs = fs and path = path and parse = parse, OF assms(1) Inr None]
      have p: "process parse path fs = (None, fst (WriteFile path ?out fs), [''OK '' @ path])" .
      show ?thesis
      proof (cases "writable f")
        case False
        with assms(1) have "fst (WriteFile path ?out fs) = fs"
          by (simp add: WriteFile_def)
        with p show ?thesis by simp
      next
        case True
        let ?f1 = "f\<lparr>content := ?out\<rparr>"
        let ?fs1 = "fs(path \<mapsto> ?f1)"
        from True assms(1) have w: "fst (WriteFile path ?out fs) = ?fs1"
          by (simp add: WriteFile_def)
        have r: "?fs1 path = Some ?f1" by simp
        have b1: "trimRight (stripGenerated (content ?f1)) = ?b"
          using restrip_output [OF assms(2) ids] by simp
        have i1: "parse (trimRight (stripGenerated (content ?f1))) = Inr specs"
          using Inr by (simp only: b1)
        have n1: "g_err (Walk \<lparr>g_w = trimRight (stripGenerated (content ?f1)) @ NL @ NL,
                                g_err = None\<rparr> specs) = None"
          using None by (simp only: b1)
        from process_ok [where fs = ?fs1 and path = path and parse = parse, OF r i1 n1]
        have "process parse path ?fs1
                = (None, fst (WriteFile path ?out ?fs1), [''OK '' @ path])"
          by (simp only: b1)
        moreover have "fst (WriteFile path ?out ?fs1) = ?fs1"
          using True by (simp add: WriteFile_def)
        ultimately show ?thesis using p w by simp
      qed
    qed
  qed
qed

theorem second_run_same_witness:
  "process parseKnown ''a.go'' (fst (snd (process parseKnown ''a.go'' [''a.go'' \<mapsto> pointFile])))
     = process parseKnown ''a.go'' [''a.go'' \<mapsto> pointFile]
   \<and> fst (process parseKnown ''a.go'' [''a.go'' \<mapsto> pointFile]) = None"
proof -
  let ?specs = "[TypeSpec ''point'' (StructType pointFields)]"
  have h1: "[''a.go'' \<mapsto> pointFile] ''a.go'' = Some pointFile" by simp
  have h2: "\<not> containsFold beginMarker (trimRight (stripGenerated (content pointFile)))"
    by (simp add: pointFile_def strip_srcPoint plain_srcPoint)
  have p: "parseKnown (trimRight (stripGenerated (content pointFile))) = Inr ?specs"
    by (simp add: pointFile_def strip_srcPoint parse_srcPoint)
  have i: "list_all identsOK ?specs"
    by (simp add: identsOK_def plainName_def pointFields_def)
  have h3: "\<forall>specs. parseKnown (trimRight (stripGenerated (content pointFile))) = Inr specs
              \<longrightarrow> list_all identsOK specs"
    using i by (simp add: p)
  have w: "g_err (Walk \<lparr>g_w = trimRight (stripGenerated (content pointFile)) @ NL @ NL,
                          g_err = None\<rparr> ?specs) = None"
    by (simp add: Walk_Nil Walk_Cons Visit_no_error visit_point_ok)
  from process_ok [where fs = "[''a.go'' \<mapsto> pointFile]" and path = "''a.go''"
      and parse = parseKnown, OF h1 p w]
  have "fst (process parseKnown ''a.go'' [''a.go'' \<mapsto> pointFile]) = None" by simp
  with second_run_same [where fs = "[''a.go'' \<mapsto> pointFile]" and path = "''a.go''"
      and parse = parseKnown, OF h1 h2 h3]
  show ?thesis by simp
qed

text \<open>
  C1 as the specification states it fails on a file whose hand-written part has a comment
  with the begin marker and no end marker. The first run strips nothing and appends a
  block. In the second run the marker of the comment matches up to the end marker of
  that block, so the declaration between them is stripped with it, and the output
  differs.
\<close>

lemma strip_srcMarked: "trimRight (stripGenerated srcMarked) = srcMarked"
proof -
  have "afterEnd srcMarked = None"
    by (simp add: srcMarked_def srcPlain_def beginMarker_def endMarker_def foldEq_def)
  then have "stripGenerated srcMarked = srcMarked"
    by (rule strip_without_end)
  then show ?thesis
    by (simp add: srcMarked_def srcPlain_def trimRight_def cutset_def beginMarker_def)
qed

lemma restrip_srcMarked:
  "trimRight (stripGenerated (srcMarked @ NL @ NL @ block (TypeSpec ''t'' (StructType []))))
     = srcPlain"
proof -
  let ?t = "TypeSpec ''t'' (StructType [])"
  have e: "isEligible ?t" by (simp add: isEligible_def)
  have i: "identsOK ?t" by (simp add: identsOK_def plainName_def)
  from block_eligible [OF e i] obtain code where c: "CHR ''/'' \<notin> set code"
    and b: "block ?t = beginMarker @ NL @ NL @ boilerplate @ code @ endMarker @ NL @ NL"
    by blast
  let ?decl = "''type t struct {}'' @ NL @ NL"
  let ?ds = "?decl @ block ?t"
  have n: "CHR ''/'' \<notin> set ?decl" by simp
  have "afterEnd ?ds = afterEnd (beginMarker @ NL @ (NL @ boilerplate @ (code @ (endMarker @ NL @ NL))))"
    using afterEnd_skip [OF n, of "block ?t"] by (simp add: b)
  also have "\<dots> = Some (NL @ NL)"
    by (simp only: afterEnd_begin afterEnd_boilerplate afterEnd_skip [OF c] afterEnd_end)
  finally have a: "afterEnd ?ds = Some (NL @ NL)" .
  have m: "matchFold beginMarker (beginMarker @ NL @ ?ds)"
    by (rule matchFold_begin_self)
  have d: "drop (length beginMarker) (beginMarker @ NL @ ?ds) = CHR ''\<newline>'' # ?ds"
    by simp
  have "stripGenerated (beginMarker @ NL @ ?ds) = stripGenerated (NL @ NL)"
    by (rule strip_match [OF m d a])
  also have "\<dots> = NL @ NL"
    using strip_newlines [of "[]"] by (simp add: stripGenerated.simps)
  finally have s: "stripGenerated (beginMarker @ NL @ ?ds) = NL @ NL" .
  have "stripGenerated (srcMarked @ NL @ NL @ block ?t)
          = stripGenerated (srcPlain @ NL @ (beginMarker @ NL @ ?ds))"
    by (simp add: srcMarked_def)
  also have "\<dots> = srcPlain @ NL @ NL @ NL"
    by (simp only: strip_plain_prefix [OF plain_srcPlain] s)
  finally show ?thesis
    by (simp add: srcPlain_def trimRight_def cutset_def)
qed

lemma process_markedFile:
  "process parseKnown ''a.go'' [''a.go'' \<mapsto> markedFile]
     = (None,
        [''a.go'' \<mapsto> \<lparr>content = srcMarked @ NL @ NL @ block (TypeSpec ''t'' (StructType [])),
                       writable = True\<rparr>],
        [''OK a.go''])"
proof -
  have h1: "[''a.go'' \<mapsto> markedFile] ''a.go'' = Some markedFile" by simp
  have h2: "parseKnown (trimRight (stripGenerated (content markedFile)))
              = Inr [TypeSpec ''t'' (StructType [])]"
    by (simp add: markedFile_def strip_srcMarked parse_srcMarked)
  have h3: "g_err (Walk \<lparr>g_w = trimRight (stripGenerated (content markedFile)) @ NL @ NL,
                           g_err = None\<rparr> [TypeSpec ''t'' (StructType [])]) = None"
    by (simp add: Walk_Nil Walk_Cons Visit_no_error visit_empty_ok unicode_IsUpper_def)
  from process_ok [where fs = "[''a.go'' \<mapsto> markedFile]" and path = "''a.go''"
      and parse = parseKnown, OF h1 h2 h3]
  show ?thesis
    by (simp add: markedFile_def strip_srcMarked WriteFile_def isEligible_def)
qed

lemma process_markedFile_again:
  "process parseKnown ''a.go''
     [''a.go'' \<mapsto> \<lparr>content = srcMarked @ NL @ NL @ block (TypeSpec ''t'' (StructType [])),
                    writable = True\<rparr>]
     = (None, [''a.go'' \<mapsto> \<lparr>content = srcPlain @ NL @ NL, writable = True\<rparr>], [''OK a.go''])"
proof -
  let ?f = "\<lparr>content = srcMarked @ NL @ NL @ block (TypeSpec ''t'' (StructType [])),
              writable = True\<rparr>"
  have h1: "[''a.go'' \<mapsto> ?f] ''a.go'' = Some ?f" by simp
  have h2: "parseKnown (trimRight (stripGenerated (content ?f))) = Inr []"
    by (simp only: osfile.select_convs restrip_srcMarked parse_srcPlain)
  have h3: "\<forall>t \<in> set []. \<not> isEligible t" by simp
  from no_eligible_walk [where fs = "[''a.go'' \<mapsto> ?f]" and path = "''a.go''"
      and parse = parseKnown, OF h1 h2 h3]
  have "process parseKnown ''a.go'' [''a.go'' \<mapsto> ?f]
          = (None, fst (WriteFile ''a.go'' (srcPlain @ NL @ NL) [''a.go'' \<mapsto> ?f]),
             [''OK '' @ ''a.go''])"
    by (simp only: osfile.select_convs restrip_srcMarked)
  then show ?thesis
    by (simp add: WriteFile_def)
qed

theorem second_run_differs_counterexample:
  "map_option content
     (fst (snd (process parseKnown ''a.go''
                  (fst (snd (process parseKnown ''a.go'' [''a.go'' \<mapsto> markedFile]))))) ''a.go'')
   \<noteq> map_option content
       (fst (snd (process parseKnown ''a.go'' [''a.go'' \<mapsto> markedFile])) ''a.go'')"
  by (simp only: process_markedFile process_markedFile_again fst_conv snd_conv)
    (simp add: srcMarked_def srcPlain_def beginMarker_def)

end
